theory Spec2Isabelle
  imports Main "HOL-Library.Word"
begin

section \<open>Python primitives used by kit\_tools.py\<close>

text \<open>
  A byte of a \<open>bytes\<close> or \<open>bytearray\<close> object is an 8-bit word; Python integers are
  \<open>int\<close>.  Every \<open>raise ValueError(...)\<close> of the source is one constructor of
  \<open>error\<close>, named after the error kind the specification gives to that raise site.
  \<open>ByteRangeError\<close> is the built-in ValueError ("byte must be in range(0, 256)") of a
  bytearray item or slice assignment, \<open>IndexError\<close> the built-in error of an
  out-of-range subscript, \<open>TypeError\<close> the built-in error of \<open>len\<close> on an object
  without a length and of a bytearray that is given something it cannot take.
\<close>

type_synonym byte = "8 word"

datatype error =
    InvalidVoiceLength
  | SectionLengthMismatch
  | SectionUnavailable
  | ValueOutOfRange
  | InvalidHeaderSize
  | InvalidSubFormat
  | MalformedKitError
  | IndexOutOfRange
  | IncompatibleVoiceKind
  | SelectionCountError
  | ByteRangeError
  | IndexError
  | TypeError

text \<open>A mutating method: the object before, whether an exception left the call, the object after.\<close>

type_synonym 's mut = "'s \<Rightarrow> error option \<times> 's"

definition clamp_index :: "nat \<Rightarrow> int \<Rightarrow> nat" where
  "clamp_index n i = (if i < 0 then nat (max 0 (int n + i)) else min n (nat i))"

definition py_slice :: "'a list \<Rightarrow> int \<Rightarrow> int \<Rightarrow> 'a list" where
  "py_slice xs i j =
     (let lo = clamp_index (length xs) i; hi = clamp_index (length xs) j
      in take (hi - lo) (drop lo xs))"

definition py_setslice :: "'a list \<Rightarrow> int \<Rightarrow> int \<Rightarrow> 'a list \<Rightarrow> 'a list" where
  "py_setslice xs i j ys =
     (let lo = clamp_index (length xs) i; hi = max lo (clamp_index (length xs) j)
      in take lo xs @ ys @ drop hi xs)"

definition py_getitem :: "'a list \<Rightarrow> int \<Rightarrow> error + 'a" where
  "py_getitem xs i =
     (let j = (if i < 0 then i + int (length xs) else i)
      in if j < 0 \<or> int (length xs) \<le> j then Inl IndexError else Inr (xs ! nat j))"

definition py_setitem :: "'a list \<Rightarrow> int \<Rightarrow> 'a \<Rightarrow> error + 'a list" where
  "py_setitem xs i x =
     (let j = (if i < 0 then i + int (length xs) else i)
      in if j < 0 \<or> int (length xs) \<le> j then Inl IndexError else Inr (xs[nat j := x]))"

definition bytearray_setitem :: "byte list \<Rightarrow> int \<Rightarrow> int \<Rightarrow> error + byte list" where
  "bytearray_setitem xs i v =
     (if v < 0 \<or> 255 < v then Inl ByteRangeError else py_setitem xs i (word_of_int v))"

definition bytearray_getitem :: "byte list \<Rightarrow> int \<Rightarrow> error + int" where
  "bytearray_getitem xs i =
     (case py_getitem xs i of Inl e \<Rightarrow> Inl e | Inr b \<Rightarrow> Inr (uint b))"

fun bytes_of_ints :: "int list \<Rightarrow> error + byte list" where
  "bytes_of_ints [] = Inr []"
| "bytes_of_ints (v # vs) =
     (if v < 0 \<or> 255 < v then Inl ByteRangeError
      else case bytes_of_ints vs of Inl e \<Rightarrow> Inl e | Inr bs \<Rightarrow> Inr (word_of_int v # bs))"

text \<open>
  The section setters take any Python object as \<open>value\<close>, call \<open>len(value)\<close> and assign
  it to a slice of the bytearray.  The objects are told apart by what these two steps do:
  \<^item> \<open>Ints\<close>: a list or tuple of integers; its length is the number of elements, and
    the bytearray takes one byte per element, raising when an element is no byte;
  \<^item> \<open>Buffer itemsize raw\<close>: an object with the buffer protocol, given by the size of
    one item and its raw bytes (\<open>bytes\<close> and \<open>bytearray\<close> have items of one byte,
    \<open>array.array('H', ...)\<close> items of two; no Python buffer has items of size 0, and
    the setters refuse such a value, its length being 0); its length is the number of
    items, and the bytearray takes all of its raw bytes;
  \<^item> \<open>Refused n\<close>: an object of length \<open>n\<close> that a bytearray does not take (a
    \<open>str\<close>, a list holding something that is no integer);
  \<^item> \<open>Unsized\<close>: an object without a length (an \<open>int\<close>, \<open>None\<close>).
\<close>

datatype pyvalue =
    Ints "int list"
  | Buffer nat "byte list"
  | Refused nat
  | Unsized

fun py_len :: "pyvalue \<Rightarrow> error + nat" where
  "py_len (Ints vs) = Inr (length vs)"
| "py_len (Buffer itemsize raw) = Inr (length raw div itemsize)"
| "py_len (Refused n) = Inr n"
| "py_len Unsized = Inl TypeError"

fun bytes_of_value :: "pyvalue \<Rightarrow> error + byte list" where
  "bytes_of_value (Ints vs) = bytes_of_ints vs"
| "bytes_of_value (Buffer itemsize raw) = Inr raw"
| "bytes_of_value (Refused n) = Inl TypeError"
| "bytes_of_value Unsized = Inl TypeError"

definition marker :: "byte list" where
  "marker = [26, 24, 10, 22]"

section \<open>class Voice\<close>

text \<open>
  The attributes \<open>data\<close>, \<open>is_voice4\<close> and \<open>has_sampler\<close> are the fields of the record.
  \<open>__init__\<close> prints a warning when bytes 4 to 7 are not the marker and goes on; the
  printed line is no part of the state and is left out.  An item assignment
  \<open>self.data[i] = value\<close> is \<open>data_setitem\<close>.  A slice assignment
  \<open>self.data[i:j] = value\<close> is \<open>data_setslice\<close>: the bytearray first turns \<open>value\<close>
  into bytes (\<open>bytes_of_value\<close>), raising when it cannot, and only then replaces the
  slice by all of these bytes, however many they are.
\<close>

record voice =
  data :: "byte list"
  is_voice4 :: bool
  has_sampler :: bool

definition Voice_init :: "byte list \<Rightarrow> error + voice" where
  "Voice_init d =
     (if length d \<notin> {26, 30, 32} then Inl InvalidVoiceLength
      else Inr \<lparr>data = d, is_voice4 = (length d \<in> {30, 32}), has_sampler = (length d = 32)\<rparr>)"

definition data_setitem :: "int \<Rightarrow> int \<Rightarrow> voice mut" where
  "data_setitem i v self =
     (case bytearray_setitem (data self) i v of
        Inl e \<Rightarrow> (Some e, self)
      | Inr d \<Rightarrow> (None, self\<lparr>data := d\<rparr>))"

definition data_setslice :: "int \<Rightarrow> int \<Rightarrow> pyvalue \<Rightarrow> voice mut" where
  "data_setslice i j v self =
     (case bytes_of_value v of
        Inl e \<Rightarrow> (Some e, self)
      | Inr bs \<Rightarrow> (None, self\<lparr>data := py_setslice (data self) i j bs\<rparr>))"

definition pre_marker_params :: "voice \<Rightarrow> byte list" where
  "pre_marker_params self = py_slice (data self) 0 4"

definition pre_marker_params_set :: "pyvalue \<Rightarrow> voice mut" where
  "pre_marker_params_set v self =
     (case py_len v of
        Inl e \<Rightarrow> (Some e, self)
      | Inr n \<Rightarrow>
          if n \<noteq> 4 then (Some SectionLengthMismatch, self)
          else data_setslice 0 4 v self)"

definition voice_marker :: "voice \<Rightarrow> byte list" where
  "voice_marker self = py_slice (data self) 4 8"

definition parameters :: "voice \<Rightarrow> byte list" where
  "parameters self = py_slice (data self) 8 26"

definition parameters_set :: "pyvalue \<Rightarrow> voice mut" where
  "parameters_set v self =
     (case py_len v of
        Inl e \<Rightarrow> (Some e, self)
      | Inr n \<Rightarrow>
          if n \<noteq> 18 then (Some SectionLengthMismatch, self)
          else data_setslice 8 26 v self)"

definition extra_params :: "voice \<Rightarrow> byte list option" where
  "extra_params self = (if is_voice4 self then Some (py_slice (data self) 26 30) else None)"

definition extra_params_set :: "pyvalue \<Rightarrow> voice mut" where
  "extra_params_set v self =
     (if \<not> is_voice4 self then (Some SectionUnavailable, self)
      else case py_len v of
        Inl e \<Rightarrow> (Some e, self)
      | Inr n \<Rightarrow>
          if n \<noteq> 4 then (Some SectionLengthMismatch, self)
          else data_setslice 26 30 v self)"

definition sampler_params :: "voice \<Rightarrow> byte list option" where
  "sampler_params self = (if has_sampler self then Some (py_slice (data self) 30 32) else None)"

definition sampler_params_set :: "pyvalue \<Rightarrow> voice mut" where
  "sampler_params_set v self =
     (if \<not> has_sampler self then (Some SectionUnavailable, self)
      else case py_len v of
        Inl e \<Rightarrow> (Some e, self)
      | Inr n \<Rightarrow>
          if n \<noteq> 2 then (Some SectionLengthMismatch, self)
          else data_setslice 30 32 v self)"


definition algo_set :: "int \<Rightarrow> voice mut" where
  "algo_set v self =
     (if v \<notin> {0, 1, 2} then (Some ValueOutOfRange, self) else data_setitem 0 v self)"


definition mode_set :: "int \<Rightarrow> voice mut" where
  "mode_set v self =
     (if v \<notin> {0, 1, 2} then (Some ValueOutOfRange, self) else data_setitem 2 v self)"


definition vcf_set :: "int \<Rightarrow> voice mut" where
  "vcf_set v self =
     (if v \<notin> {0, 1, 2} then (Some ValueOutOfRange, self) else data_setitem 24 v self)"

definition tune :: "voice \<Rightarrow> error + int" where
  "tune self = bytearray_getitem (data self) 9"

definition tune_set :: "int \<Rightarrow> voice mut" where
  "tune_set v self =
     (if \<not> (0 \<le> v \<and> v \<le> 255) then (Some ValueOutOfRange, self) else data_setitem 9 v self)"


definition decay_set :: "int \<Rightarrow> voice mut" where
  "decay_set v self =
     (if \<not> (0 \<le> v \<and> v \<le> 255) then (Some ValueOutOfRange, self) else data_setitem 17 v self)"


definition param1_set :: "int \<Rightarrow> voice mut" where
  "param1_set v self =
     (if \<not> (0 \<le> v \<and> v \<le> 255) then (Some ValueOutOfRange, self) else data_setitem 11 v self)"


definition param2_set :: "int \<Rightarrow> voice mut" where
  "param2_set v self =
     (if \<not> (0 \<le> v \<and> v \<le> 255) then (Some ValueOutOfRange, self) else data_setitem 13 v self)"


definition cutoff_set :: "int \<Rightarrow> voice mut" where
  "cutoff_set v self =
     (if \<not> (0 \<le> v \<and> v \<le> 255) then (Some ValueOutOfRange, self) else data_setitem 19 v self)"


definition drive_set :: "int \<Rightarrow> voice mut" where
  "drive_set v self =
     (if \<not> (0 \<le> v \<and> v \<le> 255) then (Some ValueOutOfRange, self) else data_setitem 21 v self)"


definition fx_send_set :: "int \<Rightarrow> voice mut" where
  "fx_send_set v self =
     (if \<not> (0 \<le> v \<and> v \<le> 255) then (Some ValueOutOfRange, self) else data_setitem 15 v self)"


definition level_set :: "int \<Rightarrow> voice mut" where
  "level_set v self =
     (if \<not> (0 \<le> v \<and> v \<le> 255) then (Some ValueOutOfRange, self) else data_setitem 23 v self)"

definition Voice_to_bytes :: "voice \<Rightarrow> byte list" where
  "Voice_to_bytes self = data self"

section \<open>class Kit\<close>

record kit =
  header :: "byte list"
  voices :: "voice list"

definition and_then :: "error + 'a \<Rightarrow> ('a \<Rightarrow> error + 'b) \<Rightarrow> error + 'b" where
  "and_then r f = (case r of Inl e \<Rightarrow> Inl e | Inr x \<Rightarrow> f x)"

definition create_header :: "int \<Rightarrow> int \<Rightarrow> error + byte list" where
  "create_header header_size voice_format =
     (if header_size < 7 then Inl InvalidHeaderSize
      else if voice_format \<notin> {1, 2} then Inl InvalidSubFormat
      else
        let hdr = replicate (nat header_size) (0 :: byte);
            voice_data_size = (if voice_format = 1 then 108 else 110);
            total_size = header_size + voice_data_size
        in and_then (bytearray_setitem hdr 0 (total_size - 2)) (\<lambda>hdr.
           and_then (bytearray_setitem hdr 1 1) (\<lambda>hdr.
           and_then (bytearray_setitem hdr 2 8) (\<lambda>hdr.
           and_then (bytearray_setitem hdr 3 1) (\<lambda>hdr.
           and_then (bytearray_setitem hdr 4 18) (\<lambda>hdr.
           and_then (bytearray_setitem hdr 5 (header_size - 2)) (\<lambda>hdr.
           and_then (bytearray_setitem hdr 6 13) (\<lambda>hdr.
           Inr hdr))))))))"

definition py_range :: "int \<Rightarrow> int list" where
  "py_range n = map int [0..<nat n]"

text \<open>The loop of \<open>_find_voice_boundaries\<close>: the indices still to visit, the positions found so far.\<close>

fun scan_markers :: "byte list \<Rightarrow> int list \<Rightarrow> int list \<Rightarrow> int list" where
  "scan_markers d [] marker_positions = marker_positions"
| "scan_markers d (i # rest) marker_positions =
     scan_markers d rest
       (if py_slice d i (i + int (length marker)) = marker
        then marker_positions @ [i] else marker_positions)"

definition find_voice_boundaries :: "byte list \<Rightarrow> error + (int \<times> int) list" where
  "find_voice_boundaries d =
     (let marker_positions =
            scan_markers d (py_range (int (length d) - int (length marker) + 1)) []
      in if length marker_positions \<noteq> 4 then Inl MalformedKitError
         else
           let voice_starts = map (\<lambda>pos. pos - 4) marker_positions;
               voice_ends = drop 1 voice_starts @ [int (length d)]
           in Inr (zip voice_starts voice_ends))"

text \<open>The loop of \<open>Kit.__init__\<close> that appends \<open>Voice(data[start:end])\<close> for each boundary.\<close>

fun extract_voices :: "byte list \<Rightarrow> (int \<times> int) list \<Rightarrow> voice list \<Rightarrow> error + voice list" where
  "extract_voices d [] vs = Inr vs"
| "extract_voices d ((start, end) # rest) vs =
     (case Voice_init (py_slice d start end) of
        Inl e \<Rightarrow> Inl e
      | Inr v \<Rightarrow> extract_voices d rest (vs @ [v]))"

definition Kit_init :: "byte list option \<Rightarrow> byte list option \<Rightarrow> error + kit" where
  "Kit_init data_arg header_arg =
     (case data_arg of
        Some d \<Rightarrow>
          and_then (find_voice_boundaries d) (\<lambda>boundaries.
          and_then (py_getitem boundaries 0) (\<lambda>b0.
            let header_size = fst b0;
                hdr = py_slice d 0 header_size
            in and_then (extract_voices d boundaries []) (\<lambda>vs.
               Inr \<lparr>header = hdr, voices = vs\<rparr>)))
      | None \<Rightarrow>
          and_then (case header_arg of Some h \<Rightarrow> Inr h | None \<Rightarrow> create_header 57 1) (\<lambda>hdr.
            let empty_voice_26 = py_setslice (replicate 26 (0 :: byte)) 4 8 [26, 24, 10, 22];
                empty_voice_30 = py_setslice (replicate 30 (0 :: byte)) 4 8 [26, 24, 10, 22]
            in and_then (Voice_init empty_voice_26) (\<lambda>v0.
               and_then (Voice_init empty_voice_26) (\<lambda>v1.
               and_then (Voice_init empty_voice_26) (\<lambda>v2.
               and_then (Voice_init empty_voice_30) (\<lambda>v3.
               Inr \<lparr>header = hdr, voices = [v0, v1, v2, v3]\<rparr>))))))"

text \<open>\<open>Kit.from_file\<close> applied to the bytes read from the file: decoding.\<close>

definition decode :: "byte list \<Rightarrow> error + kit" where
  "decode d = Kit_init (Some d) None"

definition Kit_to_bytes :: "kit \<Rightarrow> byte list" where
  "Kit_to_bytes self = foldl (\<lambda>result v. result @ Voice_to_bytes v) (header self) (voices self)"

definition get_voice :: "kit \<Rightarrow> int \<Rightarrow> error + voice" where
  "get_voice self index =
     (if \<not> (0 \<le> index \<and> index < 4) then Inl IndexOutOfRange
      else py_getitem (voices self) index)"

definition voices_setitem :: "int \<Rightarrow> voice \<Rightarrow> kit mut" where
  "voices_setitem index v self =
     (case py_setitem (voices self) index v of
        Inl e \<Rightarrow> (Some e, self)
      | Inr vs \<Rightarrow> (None, self\<lparr>voices := vs\<rparr>))"

definition set_voice :: "int \<Rightarrow> voice \<Rightarrow> kit mut" where
  "set_voice index v self =
     (if \<not> (0 \<le> index \<and> index < 4) then (Some IndexOutOfRange, self)
      else if index < 3 then
        (if length (data v) \<noteq> 26 then
           (if length (data v) \<in> {30, 32} then
              (case Voice_init (py_slice (data v) 0 26) of
                 Inl e \<Rightarrow> (Some e, self)
               | Inr v' \<Rightarrow> voices_setitem index v' self)
            else (Some IncompatibleVoiceKind, self))
         else voices_setitem index v self)
      else
        (if length (data v) = 26 then
           (let current_v4_size =
                  (if length (voices self) > 3 then length (data (voices self ! 3)) else 30);
                new_data = data v @ [1, 0, 1, 0];
                new_data = (if current_v4_size = 32 then new_data @ [0, 0] else new_data)
            in case Voice_init new_data of
                 Inl e \<Rightarrow> (Some e, self)
               | Inr v' \<Rightarrow> voices_setitem index v' self)
         else if length (data v) \<notin> {30, 32} then (Some IncompatibleVoiceKind, self)
         else voices_setitem index v self))"

section \<open>mix\_kits\<close>

text \<open>
  A kit file is given by its content; \<open>load_kits\<close> is the list comprehension
  \<open>[Kit.from_file(f) for f in kit_files]\<close>, \<open>mix_loop\<close> the loop over
  \<open>enumerate(voice_selections)\<close>.
\<close>

fun load_kits :: "byte list list \<Rightarrow> error + kit list" where
  "load_kits [] = Inr []"
| "load_kits (f # fs) =
     and_then (decode f) (\<lambda>k. and_then (load_kits fs) (\<lambda>ks. Inr (k # ks)))"

definition py_enumerate :: "'a list \<Rightarrow> (int \<times> 'a) list" where
  "py_enumerate xs = zip (map int [0..<length xs]) xs"

fun mix_loop :: "kit list \<Rightarrow> (int \<times> int \<times> int) list \<Rightarrow> kit \<Rightarrow> error + kit" where
  "mix_loop kits [] new_kit = Inr new_kit"
| "mix_loop kits ((target_idx, kit_idx, voice_idx) # rest) new_kit =
     (if kit_idx \<ge> int (length kits) then Inl IndexOutOfRange
      else if \<not> (0 \<le> voice_idx \<and> voice_idx < 4) then Inl IndexOutOfRange
      else
        and_then (py_getitem kits kit_idx) (\<lambda>src.
        and_then (get_voice src voice_idx) (\<lambda>source_voice.
          case set_voice target_idx source_voice new_kit of
            (Some e, _) \<Rightarrow> Inl e
          | (None, new_kit') \<Rightarrow> mix_loop kits rest new_kit')))"

definition mix_kits :: "byte list list \<Rightarrow> (int \<times> int) list \<Rightarrow> error + kit" where
  "mix_kits kit_files voice_selections =
     (if length voice_selections \<noteq> 4 then Inl SelectionCountError
      else
        and_then (load_kits kit_files) (\<lambda>kits.
        and_then (Kit_init None None) (\<lambda>new_kit.
        and_then (py_getitem kits 0) (\<lambda>k0.
          mix_loop kits (py_enumerate voice_selections) (new_kit\<lparr>header := header k0\<rparr>)))))"

section \<open>Setter calls as data\<close>

text \<open>
  The setters of a Voice, collected so that a statement can range over all of them: the
  three toggle properties, the eight potentiometer properties and the four section
  properties.  \<open>run_voice_ops\<close> is a caller that performs a sequence of setter calls on
  one Voice and carries on after an exception.
\<close>

datatype toggle = ALGO | MODE | VCF

datatype pot = TUNE | DECAY | PARAM1 | PARAM2 | CUTOFF | DRIVE | FX_SEND | LEVEL

fun toggle_set :: "toggle \<Rightarrow> int \<Rightarrow> voice mut" where
  "toggle_set ALGO = algo_set"
| "toggle_set MODE = mode_set"
| "toggle_set VCF = vcf_set"


fun pot_set :: "pot \<Rightarrow> int \<Rightarrow> voice mut" where
  "pot_set TUNE = tune_set"
| "pot_set DECAY = decay_set"
| "pot_set PARAM1 = param1_set"
| "pot_set PARAM2 = param2_set"
| "pot_set CUTOFF = cutoff_set"
| "pot_set DRIVE = drive_set"
| "pot_set FX_SEND = fx_send_set"
| "pot_set LEVEL = level_set"

datatype voice_op =
    Set_pre_marker_params pyvalue
  | Set_parameters pyvalue
  | Set_extra_params pyvalue
  | Set_sampler_params pyvalue
  | Set_toggle toggle int
  | Set_pot pot int

fun voice_step :: "voice_op \<Rightarrow> voice mut" where
  "voice_step (Set_pre_marker_params vs) = pre_marker_params_set vs"
| "voice_step (Set_parameters vs) = parameters_set vs"
| "voice_step (Set_extra_params vs) = extra_params_set vs"
| "voice_step (Set_sampler_params vs) = sampler_params_set vs"
| "voice_step (Set_toggle t x) = toggle_set t x"
| "voice_step (Set_pot p x) = pot_set p x"

fun run_voice_ops :: "voice_op list \<Rightarrow> voice \<Rightarrow> voice" where
  "run_voice_ops [] v = v"
| "run_voice_ops (oper # rest) v = run_voice_ops rest (snd (voice_step oper v))"

text \<open>
  A value whose length is its number of bytes (or that no setter accepts): everything but a
  buffer whose items are wider or narrower than one byte.
\<close>

fun one_byte_items :: "pyvalue \<Rightarrow> bool" where
  "one_byte_items (Buffer itemsize raw) = (itemsize = 1)"
| "one_byte_items v = True"

fun byte_valued :: "voice_op \<Rightarrow> bool" where
  "byte_valued (Set_pre_marker_params v) = one_byte_items v"
| "byte_valued (Set_parameters v) = one_byte_items v"
| "byte_valued (Set_extra_params v) = one_byte_items v"
| "byte_valued (Set_sampler_params v) = one_byte_items v"
| "byte_valued oper = True"

text \<open>What \<open>Voice.__init__\<close> establishes: the length is 26, 30 or 32 and the two flags agree with it.\<close>

definition voice_inv :: "voice \<Rightarrow> bool" where
  "voice_inv v =
     (length (data v) \<in> {26, 30, 32} \<and> is_voice4 v = (length (data v) \<in> {30, 32})
      \<and> has_sampler v = (length (data v) = 32))"

section \<open>Example inputs\<close>

definition standard_bytes :: "byte list" where
  "standard_bytes =
     [1, 0, 2, 0, 26, 24, 10, 22, 3, 128, 0, 25, 0, 51, 0, 128, 0, 255, 0, 77, 0, 102, 0, 153, 1, 0]"

definition standard_voice :: voice where
  "standard_voice = \<lparr>data = standard_bytes, is_voice4 = False, has_sampler = False\<rparr>"

definition extended_bytes :: "byte list" where
  "extended_bytes =
     [2, 0, 1, 0, 26, 24, 10, 22, 0, 10, 0, 20, 0, 30, 0, 40, 0, 50, 0, 60, 0, 70, 0, 80, 2, 0,
      5, 6, 7, 8]"

definition extended_voice :: voice where
  "extended_voice = \<lparr>data = extended_bytes, is_voice4 = True, has_sampler = False\<rparr>"

definition sampler_bytes :: "byte list" where
  "sampler_bytes =
     [0, 0, 0, 0, 26, 24, 10, 22, 0, 11, 0, 21, 0, 31, 0, 41, 0, 51, 0, 61, 0, 71, 0, 81, 1, 0,
      9, 8, 7, 6, 4, 3]"

definition sampler_voice :: voice where
  "sampler_voice = \<lparr>data = sampler_bytes, is_voice4 = True, has_sampler = True\<rparr>"

definition example_kit :: kit where
  "example_kit =
     \<lparr>header = [163, 1, 8, 1, 18, 7, 13, 42, 43],
      voices = [standard_voice, standard_voice, standard_voice, extended_voice]\<rparr>"

definition example_kit2 :: kit where
  "example_kit2 =
     \<lparr>header = [165, 1, 8, 1, 18, 6, 13, 99],
      voices = [standard_voice, standard_voice, standard_voice, sampler_voice]\<rparr>"

section \<open>Marker occurrences, as the specification counts them\<close>

text \<open>
  Every position \<open>i\<close> of the buffer, left to right, at which the four bytes
  \<open>b[i..i+3]\<close> are the marker; overlapping windows are all looked at.
\<close>

definition marker_occurrences :: "byte list \<Rightarrow> nat list" where
  "marker_occurrences b = filter (\<lambda>i. take 4 (drop i b) = [26, 24, 10, 22]) [0..<length b]"

definition three_markers :: "byte list" where
  "three_markers = [26, 24, 10, 22, 26, 24, 10, 22, 26, 24, 10, 22]"

definition five_markers :: "byte list" where
  "five_markers =
     [7, 26, 24, 10, 22, 26, 24, 10, 22, 26, 24, 10, 22, 26, 24, 10, 22, 26, 24, 10, 22, 7]"

definition example_file :: "byte list" where
  "example_file =
     [163, 1, 8, 1, 18, 7, 13, 42, 43]
     @ standard_bytes @ standard_bytes @ standard_bytes @ extended_bytes"

definition example_file2 :: "byte list" where
  "example_file2 =
     [165, 1, 8, 1, 18, 6, 13, 99]
     @ standard_bytes @ standard_bytes @ standard_bytes @ sampler_bytes"

definition mixed_from_second :: kit where
  "mixed_from_second =
     \<lparr>header = [163, 1, 8, 1, 18, 7, 13, 42, 43],
      voices = [standard_voice, standard_voice, standard_voice, sampler_voice]\<rparr>"

definition mixed_example :: kit where
  "mixed_example =
     \<lparr>header = [163, 1, 8, 1, 18, 7, 13, 42, 43],
      voices =
        [standard_voice,
         \<lparr>data = take 26 sampler_bytes, is_voice4 = False, has_sampler = False\<rparr>,
         \<lparr>data = take 26 extended_bytes, is_voice4 = False, has_sampler = False\<rparr>,
         \<lparr>data = standard_bytes @ [1, 0, 1, 0], is_voice4 = True, has_sampler = False\<rparr>]\<rparr>"

section \<open>Voices as shared objects\<close>

text \<open>
  A Voice is a mutable object and the list \<open>self.voices\<close> of a Kit holds references to
  Voice objects.  Where sharing matters, the objects live in a store (the Voice objects
  allocated so far, a reference being the position of its object), \<open>Voice(...)\<close> allocates
  a new object, and a setter called through a reference updates the object in the store.
  \<open>set_voice_obj\<close> is \<open>Kit.set_voice\<close> again, with the argument and the stored voices as
  references.
\<close>

type_synonym ref = nat

type_synonym store = "voice list"

record kit_obj =
  header_bytes :: "byte list"
  voice_refs :: "ref list"

definition new_voice :: "store \<Rightarrow> byte list \<Rightarrow> error + store \<times> ref" where
  "new_voice s d =
     (case Voice_init d of Inl e \<Rightarrow> Inl e | Inr v \<Rightarrow> Inr (s @ [v], length s))"

definition voice_refs_setitem :: "int \<Rightarrow> ref \<Rightarrow> (store \<times> kit_obj) mut" where
  "voice_refs_setitem index r st =
     (case py_setitem (voice_refs (snd st)) index r of
        Inl e \<Rightarrow> (Some e, st)
      | Inr rs \<Rightarrow> (None, (fst st, (snd st)\<lparr>voice_refs := rs\<rparr>)))"

definition set_voice_obj :: "int \<Rightarrow> ref \<Rightarrow> (store \<times> kit_obj) mut" where
  "set_voice_obj index r st =
     (let s = fst st; self = snd st in
      if \<not> (0 \<le> index \<and> index < 4) then (Some IndexOutOfRange, st)
      else if index < 3 then
        (if length (data (s ! r)) \<noteq> 26 then
           (if length (data (s ! r)) \<in> {30, 32} then
              (case new_voice s (py_slice (data (s ! r)) 0 26) of
                 Inl e \<Rightarrow> (Some e, st)
               | Inr (s', r') \<Rightarrow> voice_refs_setitem index r' (s', self))
            else (Some IncompatibleVoiceKind, st))
         else voice_refs_setitem index r st)
      else
        (if length (data (s ! r)) = 26 then
           (let current_v4_size =
                  (if length (voice_refs self) > 3
                   then length (data (s ! (voice_refs self ! 3))) else 30);
                new_data = data (s ! r) @ [1, 0, 1, 0];
                new_data = (if current_v4_size = 32 then new_data @ [0, 0] else new_data)
            in case new_voice s new_data of
                 Inl e \<Rightarrow> (Some e, st)
               | Inr (s', r') \<Rightarrow> voice_refs_setitem index r' (s', self))
         else if length (data (s ! r)) \<notin> {30, 32} then (Some IncompatibleVoiceKind, st)
         else voice_refs_setitem index r st))"

definition get_voice_obj :: "kit_obj \<Rightarrow> int \<Rightarrow> error + ref" where
  "get_voice_obj self index =
     (if \<not> (0 \<le> index \<and> index < 4) then Inl IndexOutOfRange
      else py_getitem (voice_refs self) index)"

text \<open>A setter called on the Voice object behind a reference.\<close>

definition voice_step_at :: "voice_op \<Rightarrow> ref \<Rightarrow> store mut" where
  "voice_step_at oper r s =
     (case voice_step oper (s ! r) of (e, v') \<Rightarrow> (e, s[r := v']))"

text \<open>The Kit value that a Kit object denotes in a store.\<close>

definition kit_of :: "store \<Rightarrow> kit_obj \<Rightarrow> kit" where
  "kit_of s k = \<lparr>header = header_bytes k, voices = map (\<lambda>r. s ! r) (voice_refs k)\<rparr>"

definition example_store :: store where
  "example_store = [standard_voice, standard_voice, standard_voice, extended_voice, standard_voice]"

definition example_kit_obj :: kit_obj where
  "example_kit_obj = \<lparr>header_bytes = [163, 1, 8, 1, 18, 7, 13, 42, 43], voice_refs = [0, 1, 2, 3]\<rparr>"

section \<open>Voices: invariant, atomic setters, constant length\<close>

lemmas setter_defs = algo_set_def mode_set_def vcf_set_def tune_set_def decay_set_def
  param1_set_def param2_set_def cutoff_set_def drive_set_def fx_send_set_def level_set_def
  pre_marker_params_set_def parameters_set_def extra_params_set_def sampler_params_set_def


lemma Voice_init_inv: "Voice_init d = Inr v \<Longrightarrow> voice_inv v \<and> data v = d"
  by (auto simp: Voice_init_def voice_inv_def split: if_splits)

lemma bytes_of_ints_length: "bytes_of_ints vs = Inr bs \<Longrightarrow> length bs = length vs"
  by (induction vs arbitrary: bs) (auto split: if_splits sum.splits)


lemma bytes_of_value_len_exact:
  "bytes_of_value v = Inr bs \<Longrightarrow> py_len v = Inr n \<Longrightarrow> one_byte_items v \<Longrightarrow> length bs = n"
  by (cases v) (auto dest: bytes_of_ints_length)

lemma data_setitem_fail: "fst (data_setitem i x v) = None \<or> snd (data_setitem i x v) = v"
  by (auto simp: data_setitem_def split: sum.splits)

lemma data_setslice_fail: "fst (data_setslice i j vs v) = None \<or> snd (data_setslice i j vs v) = v"
  by (auto simp: data_setslice_def split: sum.splits)

lemma voice_step_fail: "fst (voice_step oper v) = None \<or> snd (voice_step oper v) = v"
proof (cases oper)
  case (Set_toggle t x)
  then show ?thesis by (cases t) (simp_all add: setter_defs data_setitem_fail)
next
  case (Set_pot p x)
  then show ?thesis by (cases p) (simp_all add: setter_defs data_setitem_fail)
qed (simp_all add: setter_defs data_setslice_fail split: sum.splits)

lemma data_setitem_length:
  "length (data (snd (data_setitem i x v))) = length (data v)"
  by (auto simp: data_setitem_def bytearray_setitem_def py_setitem_def Let_def split: sum.splits if_splits)

lemma data_setitem_flags:
  "is_voice4 (snd (data_setitem i x v)) = is_voice4 v"
  "has_sampler (snd (data_setitem i x v)) = has_sampler v"
  by (auto simp: data_setitem_def split: sum.splits)

lemma data_setslice_flags:
  "is_voice4 (snd (data_setslice i j vs v)) = is_voice4 v"
  "has_sampler (snd (data_setslice i j vs v)) = has_sampler v"
  by (auto simp: data_setslice_def split: sum.splits)

lemma py_setslice_length:
  assumes "0 \<le> i" "i \<le> j"
  shows "length (py_setslice xs i j ys)
         = length xs + length ys - (min (length xs) (nat j) - min (length xs) (nat i))"
  using assms by (auto simp: py_setslice_def clamp_index_def Let_def min_def max_def)


lemma data_setslice_length:
  assumes "0 \<le> i" "i \<le> j" "nat j \<le> length (data v)" "py_len pv = Inr n" "int n = j - i"
    and "one_byte_items pv"
  shows "length (data (snd (data_setslice i j pv v))) = length (data v)"
proof (cases "bytes_of_value pv")
  case (Inl e)
  then show ?thesis by (simp add: data_setslice_def)
next
  case (Inr bs)
  from bytes_of_value_len_exact [OF Inr assms(4,6)] have "length bs = n" .
  moreover have "min (length (data v)) (nat j) - min (length (data v)) (nat i) = n"
    using assms(1,2,3,5) by (auto simp: min_def)
  moreover have "length (data (snd (data_setslice i j pv v)))
      = length (data v) + length bs
        - (min (length (data v)) (nat j) - min (length (data v)) (nat i))"
    using Inr by (simp add: data_setslice_def py_setslice_length [OF assms(1,2)])
  ultimately show ?thesis by linarith
qed


lemma voice_step_flags:
  "is_voice4 (snd (voice_step oper v)) = is_voice4 v"
  "has_sampler (snd (voice_step oper v)) = has_sampler v"
proof -
  show "is_voice4 (snd (voice_step oper v)) = is_voice4 v"
  proof (cases oper)
    case (Set_toggle t x)
    then show ?thesis by (cases t) (auto simp: setter_defs data_setitem_flags)
  next
    case (Set_pot p x)
    then show ?thesis by (cases p) (auto simp: setter_defs data_setitem_flags)
  qed (auto simp: setter_defs data_setslice_flags split: sum.splits)
  show "has_sampler (snd (voice_step oper v)) = has_sampler v"
  proof (cases oper)
    case (Set_toggle t x)
    then show ?thesis by (cases t) (auto simp: setter_defs data_setitem_flags)
  next
    case (Set_pot p x)
    then show ?thesis by (cases p) (auto simp: setter_defs data_setitem_flags)
  qed (auto simp: setter_defs data_setslice_flags split: sum.splits)
qed


lemma voice_step_length:
  assumes "voice_inv v" "byte_valued oper"
  shows "length (data (snd (voice_step oper v))) = length (data v)"
proof (cases oper)
  case (Set_toggle t x)
  then show ?thesis by (cases t) (auto simp: setter_defs data_setitem_length)
next
  case (Set_pot p x)
  then show ?thesis by (cases p) (auto simp: setter_defs data_setitem_length)
next
  case (Set_pre_marker_params pv)
  then show ?thesis using assms
    by (auto simp: setter_defs voice_inv_def data_setslice_length [where n = 4] split: sum.splits)
next
  case (Set_parameters pv)
  then show ?thesis using assms
    by (auto simp: setter_defs voice_inv_def data_setslice_length [where n = 18] split: sum.splits)
next
  case (Set_extra_params pv)
  then show ?thesis using assms
    by (auto simp: setter_defs voice_inv_def data_setslice_length [where n = 4] split: sum.splits)
next
  case (Set_sampler_params pv)
  then show ?thesis using assms
    by (auto simp: setter_defs voice_inv_def data_setslice_length [where n = 2] split: sum.splits)
qed

lemma voice_step_inv:
  "voice_inv v \<Longrightarrow> byte_valued oper \<Longrightarrow> voice_inv (snd (voice_step oper v))"
  using voice_step_length [of v oper] voice_step_flags [of oper v]
  by (simp add: voice_inv_def)

lemma run_voice_ops_inv:
  "voice_inv v \<Longrightarrow> list_all byte_valued ops \<Longrightarrow>
     voice_inv (run_voice_ops ops v) \<and>
     length (data (run_voice_ops ops v)) = length (data v) \<and>
     is_voice4 (run_voice_ops ops v) = is_voice4 v \<and>
     has_sampler (run_voice_ops ops v) = has_sampler v"
proof (induction ops arbitrary: v)
  case Nil
  then show ?case by simp
next
  case (Cons oper rest)
  from Cons.prems have "voice_inv (snd (voice_step oper v))" "list_all byte_valued rest"
    by (simp_all add: voice_step_inv)
  from Cons.IH [OF this] show ?case
    using Cons.prems by (simp add: voice_step_length voice_step_flags)
qed

section \<open>Potentiometer setters\<close>

lemma byte_of_int_readback: "0 \<le> x \<Longrightarrow> x \<le> 255 \<Longrightarrow> uint (word_of_int x :: byte) = x"
  by (simp add: uint_word_of_int_eq take_bit_int_eq_self)






section \<open>Atomic failure\<close>

lemma voices_setitem_fail:
  "fst (voices_setitem i v k) = None \<or> snd (voices_setitem i v k) = k"
  by (auto simp: voices_setitem_def split: sum.splits)

lemma set_voice_fail: "fst (set_voice i v k) = None \<or> snd (set_voice i v k) = k"
  using voices_setitem_fail [of i _ k]
  by (auto simp: set_voice_def Let_def split: sum.splits)

text \<open>
  C9.  A setter call on a Voice (a toggle, a potentiometer or a section setter) that raises
  leaves the Voice as it was, and a \<open>set_voice\<close> call that raises leaves the Kit (its header
  and its voices) as it was.
\<close>

theorem failed_mutation_leaves_object_unchanged:
  "(fst (voice_step oper v) \<noteq> None \<longrightarrow> snd (voice_step oper v) = v)
   \<and> (fst (set_voice index w k) \<noteq> None \<longrightarrow> snd (set_voice index w k) = k)"
  using voice_step_fail [of oper v] set_voice_fail [of index w k] by auto

theorem failed_mutation_leaves_object_unchanged_witness:
  "fst (voice_step (Set_parameters (Ints [1, 2, 3, 4, 5, 6, 7, 8, 9, 10, 11, 12, 13, 14, 15, 16, 17, 256]))
          extended_voice) = Some ByteRangeError
   \<and> snd (voice_step (Set_parameters (Ints [1, 2, 3, 4, 5, 6, 7, 8, 9, 10, 11, 12, 13, 14, 15, 16, 17, 256]))
          extended_voice) = extended_voice
   \<and> fst (set_voice 4 sampler_voice example_kit) = Some IndexOutOfRange
   \<and> snd (set_voice 4 sampler_voice example_kit) = example_kit"
proof -
  let ?op = "Set_parameters (Ints [1, 2, 3, 4, 5, 6, 7, 8, 9, 10, 11, 12, 13, 14, 15, 16, 17, 256])"
  have a: "fst (voice_step ?op extended_voice) = Some ByteRangeError"
    by (simp add: parameters_set_def data_setslice_def)
  have b: "fst (set_voice 4 sampler_voice example_kit) = Some IndexOutOfRange"
    by (simp add: set_voice_def)
  from failed_mutation_leaves_object_unchanged [of ?op extended_voice 4 sampler_voice example_kit]
  show ?thesis using a b by simp
qed

section \<open>Length and kind of a Voice\<close>

text \<open>
  With values whose length is their number of bytes (a list of integers, a \<open>bytes\<close> or
  \<open>bytearray\<close> object) and with values that every setter refuses, the length of a Voice
  and its two flags stay what \<open>Voice.__init__\<close> made them, whatever setters are called.
\<close>

lemma byte_valued_ops_keep_length:
  assumes "Voice_init d = Inr v0" "list_all byte_valued ops"
  shows "length (data (run_voice_ops ops v0)) = length d
       \<and> is_voice4 (run_voice_ops ops v0) = (length d \<in> {30, 32})
       \<and> has_sampler (run_voice_ops ops v0) = (length d = 32)"
proof -
  from assms(1) have inv: "voice_inv v0" and d: "data v0 = d"
    by (simp_all add: Voice_init_inv)
  from run_voice_ops_inv [OF inv assms(2)] inv d show ?thesis
    by (simp add: voice_inv_def)
qed

text \<open>
  C10.  The code does not keep the length for every setter call.  A section setter checks
  \<open>len(value)\<close>, which counts items, and then assigns \<open>value\<close> to the slice, which
  writes every byte of it.  \<open>array.array('H', [1, 2, 3, 4])\<close> has four items of two bytes:
  on a Voice built from 26 bytes the \<open>pre_marker_params\<close> setter accepts it, replaces bytes
  0 to 3 by its eight bytes and leaves a buffer of 30 bytes, while \<open>is_voice4\<close> stays
  false and the extra section stays unavailable.
\<close>

theorem section_setter_changes_length:
  "Voice_init standard_bytes = Inr standard_voice
   \<and> length (data standard_voice) = 26
   \<and> py_len (Buffer 2 [1, 0, 2, 0, 3, 0, 4, 0]) = Inr 4
   \<and> fst (voice_step (Set_pre_marker_params (Buffer 2 [1, 0, 2, 0, 3, 0, 4, 0]))
          standard_voice) = None
   \<and> data (snd (voice_step (Set_pre_marker_params (Buffer 2 [1, 0, 2, 0, 3, 0, 4, 0]))
          standard_voice)) = [1, 0, 2, 0, 3, 0, 4, 0] @ drop 4 standard_bytes
   \<and> length (data (snd (voice_step (Set_pre_marker_params (Buffer 2 [1, 0, 2, 0, 3, 0, 4, 0]))
          standard_voice))) = 30
   \<and> is_voice4 (snd (voice_step (Set_pre_marker_params (Buffer 2 [1, 0, 2, 0, 3, 0, 4, 0]))
          standard_voice)) = False
   \<and> extra_params (snd (voice_step (Set_pre_marker_params (Buffer 2 [1, 0, 2, 0, 3, 0, 4, 0]))
          standard_voice)) = None"
  unfolding standard_voice_def standard_bytes_def
  by code_simp

section \<open>Header synthesis\<close>

lemma bytearray_setitem_ok:
  assumes "0 \<le> x" "x \<le> 255" "0 \<le> i" "nat i < length xs"
  shows "bytearray_setitem xs i x = Inr (xs[nat i := word_of_int x])"
  using assms by (simp add: bytearray_setitem_def py_setitem_def)

lemma and_then_Inr: "and_then (Inr x) f = f x"
  by (simp add: and_then_def)

lemma and_then_Inl: "and_then (Inl e) f = Inl e"
  by (simp add: and_then_def)

lemma create_header_small: "header_size < 7 \<Longrightarrow> create_header header_size voice_format = Inl InvalidHeaderSize"
  by (simp add: create_header_def)

lemma create_header_format:
  "7 \<le> header_size \<Longrightarrow> voice_format \<notin> {1, 2} \<Longrightarrow>
   create_header header_size voice_format = Inl InvalidSubFormat"
  by (simp add: create_header_def)

lemma create_header_large:
  assumes "7 \<le> header_size" "voice_format \<in> {1, 2}"
    and "255 < header_size + (if voice_format = 1 then 108 else 110) - 2"
  shows "create_header header_size voice_format = Inl ByteRangeError"
  using assms
  by (auto simp: create_header_def Let_def bytearray_setitem_def and_then_Inl)

lemma create_header_ok:
  assumes "7 \<le> header_size" "voice_format \<in> {1, 2}"
    and "header_size + (if voice_format = 1 then 108 else 110) - 2 \<le> 255"
  shows "create_header header_size voice_format =
         Inr ((replicate (nat header_size) 0)
               [0 := word_of_int (header_size + (if voice_format = 1 then 108 else 110) - 2),
                1 := 1, 2 := 8, 3 := 1, 4 := 18, 5 := word_of_int (header_size - 2), 6 := 13])"
proof -
  have fmt: "voice_format = 1 \<or> voice_format = 2" using assms(2) by simp
  show ?thesis
    using assms(1,3) fmt
    by (auto simp: create_header_def Let_def bytearray_setitem_ok and_then_Inr)
qed


lemma create_header_ok_bytes:
  assumes "7 \<le> header_size" "voice_format \<in> {1, 2}"
    and "header_size + (if voice_format = 1 then 108 else 110) - 2 \<le> 255"
  shows "\<exists>h. create_header header_size voice_format = Inr h
           \<and> int (length h) = header_size
           \<and> uint (h ! 0) = header_size + (if voice_format = 1 then 108 else 110) - 2
           \<and> [h ! 1, h ! 2, h ! 3, h ! 4] = [1, 8, 1, 18]
           \<and> uint (h ! 5) = header_size - 2
           \<and> h ! 6 = 13
           \<and> (\<forall>i. 7 \<le> i \<and> i < length h \<longrightarrow> h ! i = 0)"
proof -
  let ?t = "header_size + (if voice_format = 1 then 108 else 110) - 2"
  let ?h = "(replicate (nat header_size) (0 :: byte))
               [0 := word_of_int ?t,
                1 := 1, 2 := 8, 3 := 1, 4 := 18, 5 := word_of_int (header_size - 2), 6 := 13]"
  have eq: "create_header header_size voice_format = Inr ?h"
    using assms by (rule create_header_ok)
  have len: "int (length ?h) = header_size" using assms(1) by simp
  have t: "0 \<le> ?t" "?t \<le> 255" using assms by auto
  have "?h ! 0 = word_of_int ?t" using assms(1) by simp
  then have b0: "uint (?h ! 0) = ?t"
    using byte_of_int_readback [OF t] by (simp only:)
  have b14: "[?h ! 1, ?h ! 2, ?h ! 3, ?h ! 4] = [1, 8, 1, 18]"
    using assms(1) by simp
  have s: "0 \<le> header_size - 2" "header_size - 2 \<le> 255" using assms by (auto split: if_splits)
  have "?h ! 5 = word_of_int (header_size - 2)" using assms(1) by simp
  then have b5: "uint (?h ! 5) = header_size - 2"
    using byte_of_int_readback [OF s] by (simp only:)
  have b6: "?h ! 6 = 13" using assms(1) by simp
  have rest: "\<forall>i. 7 \<le> i \<and> i < length ?h \<longrightarrow> ?h ! i = 0"
    by simp
  from eq len b0 b14 b5 b6 rest show ?thesis by blast
qed

text \<open>
  C6, as the code has it.  \<open>create_header\<close> raises the header-size error exactly when
  \<open>header_size < 7\<close>; it raises the sub-format error exactly when \<open>header_size \<ge> 7\<close> and
  the format is neither 1 nor 2 (the size is checked first); when the size is at least 7,
  the format is 1 or 2 and \<open>header_size + (108 or 110) - 2\<close> exceeds 255, the assignment to
  byte 0 raises, since the value is no byte; in every other case it returns
  \<open>header_size\<close> bytes: byte 0 is \<open>header_size + (108 or 110) - 2\<close>, bytes 1 to 4 are
  1, 8, 1, 18, byte 5 is \<open>header_size - 2\<close>, byte 6 is 13 and all later bytes are zero.
  For size 57 and format 1 the result has 57 bytes, byte 0 is 163 and byte 5 is 55.
\<close>

theorem create_header_cases:
  "(create_header header_size voice_format = Inl InvalidHeaderSize) = (header_size < 7)
   \<and> (create_header header_size voice_format = Inl InvalidSubFormat)
       = (7 \<le> header_size \<and> voice_format \<notin> {1, 2})
   \<and> (create_header header_size voice_format = Inl ByteRangeError)
       = (7 \<le> header_size \<and> voice_format \<in> {1, 2}
          \<and> 255 < header_size + (if voice_format = 1 then 108 else 110) - 2)
   \<and> (7 \<le> header_size \<and> voice_format \<in> {1, 2}
        \<and> header_size + (if voice_format = 1 then 108 else 110) - 2 \<le> 255 \<longrightarrow>
       (\<exists>h. create_header header_size voice_format = Inr h
           \<and> int (length h) = header_size
           \<and> uint (h ! 0) = header_size + (if voice_format = 1 then 108 else 110) - 2
           \<and> [h ! 1, h ! 2, h ! 3, h ! 4] = [1, 8, 1, 18]
           \<and> uint (h ! 5) = header_size - 2
           \<and> h ! 6 = 13
           \<and> (\<forall>i. 7 \<le> i \<and> i < length h \<longrightarrow> h ! i = 0)))
   \<and> (\<exists>h. create_header 57 1 = Inr h \<and> length h = 57 \<and> h ! 0 = 163 \<and> h ! 5 = 55)"
proof -
  let ?t = "header_size + (if voice_format = 1 then 108 else 110) - 2"
  consider (small) "header_size < 7"
    | (fmt) "7 \<le> header_size" "voice_format \<notin> {1, 2}"
    | (large) "7 \<le> header_size" "voice_format \<in> {1, 2}" "255 < ?t"
    | (ok) "7 \<le> header_size" "voice_format \<in> {1, 2}" "?t \<le> 255"
    by linarith
  then have errs:
    "(create_header header_size voice_format = Inl InvalidHeaderSize) = (header_size < 7)
     \<and> (create_header header_size voice_format = Inl InvalidSubFormat)
         = (7 \<le> header_size \<and> voice_format \<notin> {1, 2})
     \<and> (create_header header_size voice_format = Inl ByteRangeError)
         = (7 \<le> header_size \<and> voice_format \<in> {1, 2} \<and> 255 < ?t)"
  proof cases
    case small
    then show ?thesis by (simp add: create_header_small)
  next
    case fmt
    then show ?thesis using create_header_format [of header_size voice_format] by simp
  next
    case large
    then show ?thesis using create_header_large [of header_size voice_format] by simp
  next
    case ok
    then show ?thesis using create_header_ok [of header_size voice_format] by simp
  qed
  have "create_header 57 1 = Inr ((replicate (nat 57) 0)
               [0 := word_of_int (57 + (if (1::int) = 1 then 108 else 110) - 2),
                1 := 1, 2 := 8, 3 := 1, 4 := 18, 5 := word_of_int (57 - 2), 6 := 13])"
    by (rule create_header_ok) simp_all
  then have std: "\<exists>h. create_header 57 1 = Inr h \<and> length h = 57 \<and> h ! 0 = 163 \<and> h ! 5 = 55"
    by simp
  from errs std create_header_ok_bytes [of header_size voice_format]
  show ?thesis by blast
qed

theorem create_header_cases_witness:
  "(7 :: int) \<le> 59 \<and> (2 :: int) \<in> {1, 2} \<and> (59 :: int) + 110 - 2 \<le> 255
   \<and> (\<exists>h. create_header 59 2 = Inr h \<and> length h = 59 \<and> uint (h ! 0) = 167
          \<and> uint (h ! 5) = 57 \<and> h ! 6 = 13 \<and> h ! 58 = 0)"
proof -
  from create_header_cases [of 59 2]
  obtain h where h: "create_header 59 2 = Inr h" "int (length h) = 59" "uint (h ! 0) = 167"
      "uint (h ! 5) = 57" "h ! 6 = 13" "\<forall>i. 7 \<le> i \<and> i < length h \<longrightarrow> h ! i = 0"
    by auto
  from h(2) have "length h = 59" by simp
  moreover from this h(6) have "h ! 58 = 0" by simp
  ultimately show ?thesis using h by auto
qed

text \<open>
  The claim as written fails for a large header: size 150 is at least 7 and format 1 is a
  known format, yet the call raises, since byte 0 would be 256.
\<close>

theorem create_header_150_raises:
  "(7 :: int) \<le> 150 \<and> (1 :: int) \<in> {1, 2} \<and> create_header 150 1 = Inl ByteRangeError"
  by (simp add: create_header_def bytearray_setitem_def and_then_def)

section \<open>Replacing a voice\<close>

lemma voices_setitem_ok:
  assumes "0 \<le> index" "nat index < length (voices k)"
  shows "voices_setitem index w k = (None, k\<lparr>voices := (voices k)[nat index := w]\<rparr>)"
  using assms by (simp add: voices_setitem_def py_setitem_def)

lemma py_slice_prefix: "0 \<le> n \<Longrightarrow> py_slice xs 0 n = take (nat n) xs"
  by (simp add: py_slice_def clamp_index_def min_def)

lemma set_voice_low_standard:
  assumes "length (voices k) = 4" "index \<in> {0, 1, 2}" "length (data v) = 26"
  shows "set_voice index v k = (None, k\<lparr>voices := (voices k)[nat index := v]\<rparr>)"
  using assms by (auto simp: set_voice_def voices_setitem_ok)

lemma set_voice_low_truncate:
  assumes "length (voices k) = 4" "index \<in> {0, 1, 2}" "length (data v) \<in> {30, 32}"
  shows "set_voice index v k =
         (None, k\<lparr>voices := (voices k)
            [nat index := \<lparr>data = take 26 (data v), is_voice4 = False, has_sampler = False\<rparr>]\<rparr>)"
  using assms
  by (auto simp: set_voice_def voices_setitem_ok py_slice_prefix Voice_init_def)

lemma set_voice_v4_as_is:
  assumes "length (voices k) = 4" "length (data v) \<in> {30, 32}"
  shows "set_voice 3 v k = (None, k\<lparr>voices := (voices k)[3 := v]\<rparr>)"
  using assms by (auto simp: set_voice_def voices_setitem_ok)

lemma set_voice_v4_upgrade:
  assumes "length (voices k) = 4" "length (data v) = 26"
  shows "set_voice 3 v k =
         (None, k\<lparr>voices := (voices k)
            [3 := (if length (data (voices k ! 3)) = 32
                   then \<lparr>data = data v @ [1, 0, 1, 0, 0, 0], is_voice4 = True, has_sampler = True\<rparr>
                   else \<lparr>data = data v @ [1, 0, 1, 0], is_voice4 = True, has_sampler = False\<rparr>)]\<rparr>)"
  using assms
  by (auto simp: set_voice_def voices_setitem_ok Voice_init_def Let_def)

lemma get_voice_ok:
  assumes "0 \<le> index" "index < 4" "length (voices k) = 4"
  shows "get_voice k index = Inr (voices k ! nat index)"
  using assms by (simp add: get_voice_def py_getitem_def)

text \<open>
  C5.  For a kit (four voices), a slot 0, 1 or 2 and a Voice \<open>v\<close> (26, 30 or 32 bytes):
  \<open>set_voice\<close> succeeds; the header and the other slots stay; the voice then read from the
  slot has 26 bytes, the first 26 bytes of \<open>v\<close>; and it is \<open>v\<close> itself when \<open>v\<close> has 26 bytes.
\<close>

theorem set_voice_slots_0_to_2:
  assumes "length (voices k) = 4" "index \<in> {0, 1, 2}" "length (data v) \<in> {26, 30, 32}"
  shows "fst (set_voice index v k) = None
       \<and> header (snd (set_voice index v k)) = header k
       \<and> (\<exists>w. get_voice (snd (set_voice index v k)) index = Inr w
              \<and> length (data w) = 26
              \<and> data w = take 26 (data v)
              \<and> (length (data v) = 26 \<longrightarrow> w = v))
       \<and> (\<forall>j. 0 \<le> j \<and> j < 4 \<and> j \<noteq> index \<longrightarrow>
              get_voice (snd (set_voice index v k)) j = get_voice k j)"
proof (cases "length (data v) = 26")
  case True
  from assms(2) have i: "0 \<le> index" "index < 4" "nat index < 4" by auto
  from set_voice_low_standard [OF assms(1,2) True] i assms(1) True
  show ?thesis by (auto simp: get_voice_ok nat_eq_iff)
next
  case False
  with assms(3) have l: "length (data v) \<in> {30, 32}" by auto
  from assms(2) have i: "0 \<le> index" "index < 4" "nat index < 4" by auto
  from set_voice_low_truncate [OF assms(1,2) l] i assms(1) l
  show ?thesis by (auto simp: get_voice_ok nat_eq_iff)
qed

theorem set_voice_slots_0_to_2_witness:
  "length (voices example_kit) = 4 \<and> (0 :: int) \<in> {0, 1, 2}
   \<and> length (data sampler_voice) \<in> {26, 30, 32}
   \<and> fst (set_voice 0 sampler_voice example_kit) = None
   \<and> (\<exists>w. get_voice (snd (set_voice 0 sampler_voice example_kit)) 0 = Inr w
          \<and> length (data w) = 26 \<and> data w = take 26 sampler_bytes)"
proof -
  have a: "length (voices example_kit) = 4" by (simp add: example_kit_def)
  have b: "(0 :: int) \<in> {0, 1, 2}" by simp
  have c: "length (data sampler_voice) \<in> {26, 30, 32}"
    by (simp add: sampler_voice_def sampler_bytes_def)
  have d: "data sampler_voice = sampler_bytes" by (simp add: sampler_voice_def)
  from set_voice_slots_0_to_2 [OF a b c] a b c d show ?thesis by auto
qed

text \<open>
  C4.  For a kit (four voices) and a Voice \<open>v\<close>: \<open>set_voice\<close> at slot 3 succeeds and leaves
  the header and slots 0 to 2.  When \<open>v\<close> has 26 bytes and the kit's slot 3 holds 32 bytes,
  the stored voice is \<open>v\<close>'s bytes followed by 1, 0, 1, 0 and then 0, 0 (32 bytes); when
  \<open>v\<close> has 26 bytes and the kit's slot 3 holds 30 bytes, it is \<open>v\<close>'s bytes followed by
  1, 0, 1, 0 (30 bytes, no sampler section); a \<open>v\<close> of 30 or 32 bytes is stored as it is.
\<close>

theorem set_voice_slot_3:
  assumes "length (voices k) = 4" "length (data v) \<in> {26, 30, 32}"
  shows "fst (set_voice 3 v k) = None
       \<and> header (snd (set_voice 3 v k)) = header k
       \<and> (\<exists>w. get_voice (snd (set_voice 3 v k)) 3 = Inr w
            \<and> (length (data v) = 26 \<and> length (data (voices k ! 3)) = 32 \<longrightarrow>
                 length (data w) = 32 \<and> data w = data v @ [1, 0, 1, 0] @ [0, 0]
                 \<and> take 26 (data w) = data v
                 \<and> extra_params w = Some [1, 0, 1, 0] \<and> sampler_params w = Some [0, 0])
            \<and> (length (data v) = 26 \<and> length (data (voices k ! 3)) = 30 \<longrightarrow>
                 length (data w) = 30 \<and> data w = data v @ [1, 0, 1, 0]
                 \<and> extra_params w = Some [1, 0, 1, 0] \<and> sampler_params w = None)
            \<and> (length (data v) \<in> {30, 32} \<longrightarrow> w = v))
       \<and> (\<forall>j. 0 \<le> j \<and> j < 3 \<longrightarrow> get_voice (snd (set_voice 3 v k)) j = get_voice k j)"
proof (cases "length (data v) = 26")
  case True
  have sl: "py_slice (xs @ a # b # c # d # rest) 26 30 = [a, b, c, d]"
    if "length xs = 26" "length rest \<le> 2" for xs :: "byte list" and a b c d rest
    using that by (auto simp: py_slice_def clamp_index_def)
  have sm: "py_slice (xs @ [a, b, c, d, e, f]) 30 32 = [e, f]"
    if "length xs = 26" for xs :: "byte list" and a b c d e f
    using that by (auto simp: py_slice_def clamp_index_def)
  from set_voice_v4_upgrade [OF assms(1) True] assms(1) True
  show ?thesis
    by (auto simp: get_voice_ok extra_params_def sampler_params_def sl sm nat_eq_iff)
next
  case False
  with assms(2) have l: "length (data v) \<in> {30, 32}" by auto
  from set_voice_v4_as_is [OF assms(1) l] assms(1) l
  show ?thesis by (auto simp: get_voice_ok nat_eq_iff)
qed

theorem set_voice_slot_3_witness:
  "length (voices example_kit2) = 4 \<and> length (data standard_voice) \<in> {26, 30, 32}
   \<and> length (data standard_voice) = 26 \<and> length (data (voices example_kit2 ! 3)) = 32
   \<and> fst (set_voice 3 standard_voice example_kit2) = None
   \<and> (\<exists>w. get_voice (snd (set_voice 3 standard_voice example_kit2)) 3 = Inr w
          \<and> data w = standard_bytes @ [1, 0, 1, 0] @ [0, 0])"
proof -
  have a: "length (voices example_kit2) = 4" by (simp add: example_kit2_def)
  have c: "length (data standard_voice) \<in> {26, 30, 32}"
    by (simp add: standard_voice_def standard_bytes_def)
  have d: "data standard_voice = standard_bytes" by (simp add: standard_voice_def)
  have e: "length (data standard_voice) = 26"
    by (simp add: standard_voice_def standard_bytes_def)
  have f: "length (data (voices example_kit2 ! 3)) = 32"
    by (simp add: example_kit2_def sampler_voice_def sampler_bytes_def)
  from set_voice_slot_3 [OF a c] a c d e f show ?thesis by auto
qed

section \<open>Locating the markers\<close>

lemma scan_markers_filter:
  "scan_markers d idxs acc =
   acc @ filter (\<lambda>i. py_slice d i (i + int (length marker)) = marker) idxs"
  by (induction idxs arbitrary: acc) simp_all

lemma py_slice_nat:
  "py_slice xs (int s) (int e) = take (min (length xs) e - min (length xs) s) (drop (min (length xs) s) xs)"
  by (simp add: py_slice_def clamp_index_def min_def)

lemma py_slice_window:
  assumes "i + 4 \<le> length d"
  shows "py_slice d (int i) (int i + int (length marker)) = take 4 (drop i d)"
proof -
  have "int i + int (length marker) = int (i + 4)" by (simp add: marker_def)
  then show ?thesis using assms by (simp only: py_slice_nat) (simp add: min_def)
qed

lemma scanned_positions:
  "scan_markers d (py_range (int (length d) - int (length marker) + 1)) [] =
   map int (filter (\<lambda>i. take 4 (drop i d) = marker) [0..<length d - 3])"
proof -
  have r: "py_range (int (length d) - int (length marker) + 1) = map int [0..<length d - 3]"
    by (simp add: py_range_def marker_def nat_diff_distrib')
  have "filter (\<lambda>i. py_slice d i (i + int (length marker)) = marker) (map int [0..<length d - 3])
      = map int (filter (\<lambda>i. take 4 (drop i d) = marker) [0..<length d - 3])"
    unfolding filter_map
    by (rule arg_cong [where f = "map int"], rule filter_cong)
       (auto simp: py_slice_window)
  with r show ?thesis by (simp add: scan_markers_filter)
qed

lemma short_window_no_marker:
  assumes "length d < i + 4"
  shows "take 4 (drop i d) \<noteq> marker"
proof
  assume "take 4 (drop i d) = marker"
  then have "length (take 4 (drop i d)) = 4" by (simp add: marker_def)
  with assms show False by simp
qed

lemma marker_occurrences_scan:
  "marker_occurrences d = filter (\<lambda>i. take 4 (drop i d) = marker) [0..<length d - 3]"
proof -
  have "[0..<length d] = [0..<length d - 3] @ [length d - 3..<length d]"
    using upt_add_eq_append [of 0 "length d - 3" "length d - (length d - 3)"] by simp
  moreover have "filter (\<lambda>i. take 4 (drop i d) = marker) [length d - 3..<length d] = []"
    by (auto simp: filter_empty_conv intro!: short_window_no_marker)
  ultimately show ?thesis
    by (simp add: marker_occurrences_def marker_def [symmetric])
qed

lemma find_voice_boundaries_eq:
  "find_voice_boundaries d =
     (if length (marker_occurrences d) \<noteq> 4 then Inl MalformedKitError
      else Inr (zip (map (\<lambda>p. int p - 4) (marker_occurrences d))
                    (drop 1 (map (\<lambda>p. int p - 4) (marker_occurrences d)) @ [int (length d)])))"
  by (simp add: find_voice_boundaries_def scanned_positions marker_occurrences_scan Let_def o_def)

lemma extract_voices_error:
  "extract_voices d bs acc = Inl e \<Longrightarrow> e = InvalidVoiceLength"
proof (induction bs arbitrary: acc)
  case Nil
  then show ?case by simp
next
  case (Cons b bs)
  obtain s t where b: "b = (s, t)" by (cases b)
  from Cons show ?case
    by (auto simp: b Voice_init_def split: sum.splits if_splits)
qed

lemma decode_error_cases:
  "decode d = Inl e \<Longrightarrow>
   (e = MalformedKitError \<and> length (marker_occurrences d) \<noteq> 4)
   \<or> (e = InvalidVoiceLength \<and> length (marker_occurrences d) = 4)"
  by (auto simp: decode_def Kit_init_def and_then_def find_voice_boundaries_eq py_getitem_def
      Let_def split: sum.splits if_splits dest: extract_voices_error)

text \<open>
  C7.  Decoding fails with the malformed-kit error exactly when the number of positions at
  which the marker occurs is not 4; so it does for 3 and for 5 occurrences.
\<close>

theorem decode_malformed_iff:
  "(decode b = Inl MalformedKitError) = (length (marker_occurrences b) \<noteq> 4)"
proof
  assume "decode b = Inl MalformedKitError"
  from decode_error_cases [OF this] show "length (marker_occurrences b) \<noteq> 4" by simp
next
  assume "length (marker_occurrences b) \<noteq> 4"
  then show "decode b = Inl MalformedKitError"
    by (simp add: decode_def Kit_init_def and_then_def find_voice_boundaries_eq)
qed

theorem decode_malformed_iff_witness:
  "length (marker_occurrences three_markers) = 3
   \<and> decode three_markers = Inl MalformedKitError
   \<and> length (marker_occurrences five_markers) = 5
   \<and> decode five_markers = Inl MalformedKitError"
proof -
  have a: "length (marker_occurrences three_markers) = 3"
    unfolding marker_occurrences_def three_markers_def by code_simp
  have b: "length (marker_occurrences five_markers) = 5"
    unfolding marker_occurrences_def five_markers_def by code_simp
  from a b decode_malformed_iff [of three_markers] decode_malformed_iff [of five_markers]
  show ?thesis by simp
qed

section \<open>Decoding and encoding\<close>

lemma Kit_to_bytes_concat: "Kit_to_bytes k = header k @ concat (map data (voices k))"
proof -
  have "foldl (\<lambda>result v. result @ Voice_to_bytes v) acc vs = acc @ concat (map data vs)"
    for acc vs
    by (induction vs arbitrary: acc) (simp_all add: Voice_to_bytes_def)
  then show ?thesis by (simp add: Kit_to_bytes_def)
qed

lemma extract_voices_data:
  "extract_voices d bs acc = Inr vs \<Longrightarrow>
   map data vs = map data acc @ map (\<lambda>(s, t). py_slice d s t) bs
   \<and> (\<forall>(s, t) \<in> set bs. length (py_slice d s t) \<in> {26, 30, 32})"
proof (induction bs arbitrary: acc)
  case Nil
  then show ?case by simp
next
  case (Cons b bs)
  obtain s t where b: "b = (s, t)" by (cases b)
  from Cons.prems obtain v where v: "Voice_init (py_slice d s t) = Inr v"
    and rest: "extract_voices d bs (acc @ [v]) = Inr vs"
    by (auto simp: b split: sum.splits)
  from v have "data v = py_slice d s t" "length (py_slice d s t) \<in> {26, 30, 32}"
    by (auto simp: Voice_init_def split: if_splits)
  with Cons.IH [OF rest] show ?case by (simp add: b)
qed

lemma marker_at:
  assumes "take 4 (drop i d) = marker"
  shows "i + 4 \<le> length d" "d ! i = 26" "d ! (i + 1) = 24" "d ! (i + 2) = 10" "d ! (i + 3) = 22"
proof -
  show len: "i + 4 \<le> length d"
    using short_window_no_marker [of d i] assms by (cases "i + 4 \<le> length d") auto
  have "take 4 (drop i d) ! j = d ! (i + j)" if "j < 4" for j
    using that len by simp
  from this [of 0] this [of 1] this [of 2] this [of 3]
  show "d ! i = 26" "d ! (i + 1) = 24" "d ! (i + 2) = 10" "d ! (i + 3) = 22"
    by (simp_all add: assms marker_def)
qed

lemma markers_apart:
  assumes "take 4 (drop i d) = marker" "take 4 (drop j d) = marker" "i < j"
  shows "i + 4 \<le> j"
proof (rule ccontr)
  assume "\<not> i + 4 \<le> j"
  with assms(3) consider "j = i + 1" | "j = i + 2" | "j = i + 3" by linarith
  then show False
    using marker_at(2-5) [OF assms(1)] marker_at(2) [OF assms(2)] by cases simp_all
qed

lemma four_occurrences:
  assumes "length (marker_occurrences d) = 4"
  obtains p0 p1 p2 p3 where "marker_occurrences d = [p0, p1, p2, p3]"
    "p0 < p1" "p1 < p2" "p2 < p3" "p3 + 4 \<le> length d" "p0 + 4 \<le> p1"
proof -
  from assms obtain p0 p1 p2 p3 where ps: "marker_occurrences d = [p0, p1, p2, p3]"
    by (auto simp: length_Suc_conv eval_nat_numeral)
  have "sorted (marker_occurrences d)" "distinct (marker_occurrences d)"
    by (simp_all add: marker_occurrences_def sorted_wrt_filter)
  with ps have ord: "p0 < p1" "p1 < p2" "p2 < p3" by auto
  have "p3 \<in> set (marker_occurrences d)" by (simp add: ps)
  then have "p3 < length d - 3" by (simp add: marker_occurrences_scan)
  then have "p3 + 4 \<le> length d" by simp
  have "p0 \<in> set (marker_occurrences d)" "p1 \<in> set (marker_occurrences d)"
    by (simp_all add: ps)
  then have "take 4 (drop p0 d) = marker" "take 4 (drop p1 d) = marker"
    by (simp_all add: marker_occurrences_scan)
  from markers_apart [OF this ord(1)] have "p0 + 4 \<le> p1" .
  with ps ord \<open>p3 + 4 \<le> length d\<close> show ?thesis by (rule that)
qed

lemma py_slice_wrapped_empty:
  assumes "s < 0" "0 \<le> t" "t < int (length xs) + s"
  shows "py_slice xs s t = []"
  using assms by (auto simp: py_slice_def clamp_index_def)

lemma take_take_drop: "s \<le> t \<Longrightarrow> take s xs @ take (t - s) (drop s xs) = take t xs"
  by (metis le_add_diff_inverse take_add)

lemma decode_roundtrip: 
  assumes "decode b = Inr k"
  shows "Kit_to_bytes k = b"
proof -
  let ?n = "length b"
  have four: "length (marker_occurrences b) = 4"
  proof (rule ccontr)
    assume "length (marker_occurrences b) \<noteq> 4"
    then have "decode b = Inl MalformedKitError"
      by (simp add: decode_def Kit_init_def and_then_def find_voice_boundaries_eq)
    with assms show False by simp
  qed
  then obtain p0 p1 p2 p3 where ps: "marker_occurrences b = [p0, p1, p2, p3]"
    and ord: "p0 < p1" "p1 < p2" "p2 < p3" "p3 + 4 \<le> ?n" "p0 + 4 \<le> p1"
    by (rule four_occurrences)
  let ?bs = "[(int p0 - 4, int p1 - 4), (int p1 - 4, int p2 - 4), (int p2 - 4, int p3 - 4),
              (int p3 - 4, int ?n)]"
  have fb: "find_voice_boundaries b = Inr ?bs"
    by (simp add: find_voice_boundaries_eq ps)
  from assms fb obtain vs where ex: "extract_voices b ?bs [] = Inr vs"
    and k: "k = \<lparr>header = py_slice b 0 (int p0 - 4), voices = vs\<rparr>"
    by (auto simp: decode_def Kit_init_def and_then_def py_getitem_def Let_def split: sum.splits)
  from extract_voices_data [OF ex]
  have dat: "map data vs = map (\<lambda>(s, t). py_slice b s t) ?bs"
    and len0: "length (py_slice b (int p0 - 4) (int p1 - 4)) \<in> {26, 30, 32}"
    by simp_all
  have p0: "4 \<le> p0"
  proof (rule ccontr)
    assume "\<not> 4 \<le> p0"
    then have "py_slice b (int p0 - 4) (int p1 - 4) = []"
      using ord by (intro py_slice_wrapped_empty) auto
    with len0 show False by simp
  qed
  have i0: "int p0 - 4 = int (p0 - 4)" using p0 by simp
  have i1: "int p1 - 4 = int (p1 - 4)" using p0 ord by simp
  have i2: "int p2 - 4 = int (p2 - 4)" using p0 ord by simp
  have i3: "int p3 - 4 = int (p3 - 4)" using p0 ord by simp
  have "py_slice b 0 (int p0 - 4) = take (nat (int p0 - 4)) b"
    by (rule py_slice_prefix) (use p0 in simp)
  moreover have "nat (int p0 - 4) = p0 - 4" by simp
  ultimately have hdr: "header k = take (p0 - 4) b"
    by (simp add: k)
  have sl: "py_slice b (int s) (int t) = take (t - s) (drop s b)" if "s \<le> t" "t \<le> ?n" for s t
    using that by (simp add: py_slice_nat min_def)
  have s0: "py_slice b (int p0 - 4) (int p1 - 4) = take ((p1 - 4) - (p0 - 4)) (drop (p0 - 4) b)"
    unfolding i0 i1 by (rule sl) (use ord in simp_all)
  have s1: "py_slice b (int p1 - 4) (int p2 - 4) = take ((p2 - 4) - (p1 - 4)) (drop (p1 - 4) b)"
    unfolding i1 i2 by (rule sl) (use ord in simp_all)
  have s2: "py_slice b (int p2 - 4) (int p3 - 4) = take ((p3 - 4) - (p2 - 4)) (drop (p2 - 4) b)"
    unfolding i2 i3 by (rule sl) (use ord in simp_all)
  have s3: "py_slice b (int p3 - 4) (int ?n) = take (?n - (p3 - 4)) (drop (p3 - 4) b)"
    unfolding i3 by (rule sl) (use ord in simp_all)
  have v: "concat (map data (voices k)) =
       take ((p1 - 4) - (p0 - 4)) (drop (p0 - 4) b)
       @ take ((p2 - 4) - (p1 - 4)) (drop (p1 - 4) b)
       @ take ((p3 - 4) - (p2 - 4)) (drop (p2 - 4) b)
       @ take (?n - (p3 - 4)) (drop (p3 - 4) b)"
    unfolding k using dat by (simp add: s0 s1 s2 s3)
  have e1: "take (p0 - 4) b @ take ((p1 - 4) - (p0 - 4)) (drop (p0 - 4) b) = take (p1 - 4) b"
    by (rule take_take_drop) (use ord in simp)
  have e2: "take (p1 - 4) b @ take ((p2 - 4) - (p1 - 4)) (drop (p1 - 4) b) = take (p2 - 4) b"
    by (rule take_take_drop) (use ord in simp)
  have e3: "take (p2 - 4) b @ take ((p3 - 4) - (p2 - 4)) (drop (p2 - 4) b) = take (p3 - 4) b"
    by (rule take_take_drop) (use ord in simp)
  have e4: "take (p3 - 4) b @ take (?n - (p3 - 4)) (drop (p3 - 4) b) = take ?n b"
    by (rule take_take_drop) (use ord in simp)
  have "Kit_to_bytes k = take ?n b"
    unfolding Kit_to_bytes_concat hdr v
    by (simp only: append_assoc [symmetric] e1 e2 e3 e4)
  then show ?thesis by simp
qed

text \<open>
  C1.  When decoding a buffer \<open>b\<close> succeeds with a Kit, encoding that Kit gives \<open>b\<close> back
  byte for byte, and decoding the encoded bytes gives the same Kit again (the same header
  and the same four voices).
\<close>

theorem decode_encode_roundtrip:
  assumes "decode b = Inr k"
  shows "Kit_to_bytes k = b \<and> decode (Kit_to_bytes k) = Inr k"
  using assms decode_roundtrip [OF assms] by simp

theorem decode_encode_roundtrip_witness:
  "decode example_file = Inr example_kit
   \<and> Kit_to_bytes example_kit = example_file
   \<and> decode (Kit_to_bytes example_kit) = Inr example_kit"
proof -
  have h: "decode example_file = Inr example_kit"
    unfolding example_file_def example_kit_def standard_voice_def extended_voice_def
      standard_bytes_def extended_bytes_def
    by code_simp
  from decode_encode_roundtrip [OF h] h show ?thesis by simp
qed

section \<open>Mixing kits\<close>

lemma set_voice_frame:
  assumes "fst (set_voice i v k) = None" "length (voices k) = 4"
  shows "0 \<le> i \<and> i < 4 \<and> header (snd (set_voice i v k)) = header k
       \<and> length (voices (snd (set_voice i v k))) = 4
       \<and> (\<forall>j. j \<noteq> nat i \<longrightarrow> voices (snd (set_voice i v k)) ! j = voices k ! j)"
proof -
  have i: "0 \<le> i \<and> i < 4"
    using assms(1) by (cases "0 \<le> i \<and> i < 4") (auto simp: set_voice_def)
  then have n: "nat i < length (voices k)" using assms(2) by linarith
  from i have ok: "voices_setitem i w k = (None, k\<lparr>voices := (voices k)[nat i := w]\<rparr>)" for w
    using n by (simp add: voices_setitem_ok)
  from assms(1) obtain w where "snd (set_voice i v k) = k\<lparr>voices := (voices k)[nat i := w]\<rparr>"
    using i by (auto simp: set_voice_def ok Let_def split: if_splits sum.splits)
  with i assms(2) show ?thesis by simp
qed

lemma set_voice_slot_indep:
  assumes "fst (set_voice i v k) = None" "length (voices k) = 4" "length (voices k') = 4"
    and "length (data (voices k' ! 3)) = length (data (voices k ! 3))"
  shows "fst (set_voice i v k') = None
       \<and> voices (snd (set_voice i v k')) ! nat i = voices (snd (set_voice i v k)) ! nat i"
proof -
  have i: "0 \<le> i \<and> i < 4"
    using assms(1) by (cases "0 \<le> i \<and> i < 4") (auto simp: set_voice_def)
  then have n: "nat i < 4" by linarith
  from i n assms(2) have ok: "voices_setitem i w k = (None, k\<lparr>voices := (voices k)[nat i := w]\<rparr>)" for w
    by (simp add: voices_setitem_ok)
  from i n assms(3) have ok': "voices_setitem i w k' = (None, k'\<lparr>voices := (voices k')[nat i := w]\<rparr>)" for w
    by (simp add: voices_setitem_ok)
  from assms(1) i n show ?thesis
    using assms(2,3,4)
    by (auto simp: set_voice_def ok ok' Let_def split: if_splits sum.splits)
qed

lemma Kit_init_default:
  "Kit_init None None =
     Inr \<lparr>header = [163, 1, 8, 1, 18, 55, 13] @ replicate 50 0,
          voices =
            [\<lparr>data = [0, 0, 0, 0, 26, 24, 10, 22] @ replicate 18 0, is_voice4 = False, has_sampler = False\<rparr>,
             \<lparr>data = [0, 0, 0, 0, 26, 24, 10, 22] @ replicate 18 0, is_voice4 = False, has_sampler = False\<rparr>,
             \<lparr>data = [0, 0, 0, 0, 26, 24, 10, 22] @ replicate 18 0, is_voice4 = False, has_sampler = False\<rparr>,
             \<lparr>data = [0, 0, 0, 0, 26, 24, 10, 22] @ replicate 22 0, is_voice4 = True, has_sampler = False\<rparr>]\<rparr>"
  by code_simp

lemma Kit_init_default_voices:
  "Kit_init None None = Inr nk \<Longrightarrow> length (voices nk) = 4 \<and> length (data (voices nk ! 3)) = 30"
  by (auto simp: Kit_init_default)

lemma mix_loop_step:
  assumes "mix_loop kits ((t, c, x) # rest) nk = Inr k"
  obtains srckit src where "py_getitem kits c = Inr srckit" "get_voice srckit x = Inr src"
    "fst (set_voice t src nk) = None" "mix_loop kits rest (snd (set_voice t src nk)) = Inr k"
  using assms
  by (auto simp: and_then_def split: if_splits sum.splits prod.splits option.splits)


lemma py_enumerate_four:
  "py_enumerate [a, b, c, d] = [(0, a), (1, b), (2, c), (3, d)]"
  by (simp add: py_enumerate_def upt_rec)

lemma mix_step_slot:
  assumes ok: "fst (set_voice (int t) src kt) = None"
    and len: "length (voices kt) = 4" "length (voices nk) = 4"
    and v4: "length (data (voices kt ! 3)) = length (data (voices nk ! 3))"
  shows "fst (set_voice (int t) src nk) = None"
    and "t < 4"
    and "get_voice (snd (set_voice (int t) src nk)) (int t)
         = Inr (voices (snd (set_voice (int t) src kt)) ! t)"
proof -
  from set_voice_frame [OF ok len(1)] show t: "t < 4" by simp
  from set_voice_slot_indep [OF ok len(1) len(2)] v4
  have a: "fst (set_voice (int t) src nk) = None"
    and b: "voices (snd (set_voice (int t) src nk)) ! t = voices (snd (set_voice (int t) src kt)) ! t"
    by simp_all
  show "fst (set_voice (int t) src nk) = None" by (rule a)
  from set_voice_frame [OF a len(2)]
  have "length (voices (snd (set_voice (int t) src nk))) = 4" by simp
  with t b show "get_voice (snd (set_voice (int t) src nk)) (int t)
         = Inr (voices (snd (set_voice (int t) src kt)) ! t)"
    by (simp add: get_voice_ok)
qed

text \<open>
  C2, as the code has it.  When \<open>mix_kits\<close> returns a Kit, the kit list is not empty and
  the Kit's header is the header of the first kit of the list (index 0), whatever kit the
  first selection names.  There are four selections, and for each target index 0..3 the
  voice of the result at that index is the one \<open>set_voice\<close> stores at that index, in a
  freshly constructed Kit, for the source voice that the selection at that position names.
\<close>

theorem mix_kits_header_and_voices:
  assumes "mix_kits kit_files voice_selections = Inr k"
  shows "\<exists>kits nk. load_kits kit_files = Inr kits \<and> kits \<noteq> [] \<and> Kit_init None None = Inr nk
      \<and> header k = header (kits ! 0)
      \<and> length voice_selections = 4 \<and> length (voices k) = 4
      \<and> (\<forall>t<4. \<exists>srckit src.
             py_getitem kits (fst (voice_selections ! t)) = Inr srckit
           \<and> get_voice srckit (snd (voice_selections ! t)) = Inr src
           \<and> fst (set_voice (int t) src nk) = None
           \<and> get_voice k (int t) = get_voice (snd (set_voice (int t) src nk)) (int t))"
proof -
  from assms have n: "length voice_selections = 4"
    by (cases "length voice_selections = 4") (auto simp: mix_kits_def)
  then obtain c0 x0 c1 x1 c2 x2 c3 x3
    where sels: "voice_selections = [(c0, x0), (c1, x1), (c2, x2), (c3, x3)]"
    by (auto simp: length_Suc_conv eval_nat_numeral)
  from assms n obtain kits nk k0 where kits: "load_kits kit_files = Inr kits"
    and nk: "Kit_init None None = Inr nk"
    and k0: "py_getitem kits 0 = Inr k0"
    and loop: "mix_loop kits (py_enumerate voice_selections) (nk\<lparr>header := header k0\<rparr>) = Inr k"
    by (auto simp: mix_kits_def and_then_def split: sum.splits)
  from k0 have ne: "kits \<noteq> []" and k0': "k0 = kits ! 0"
    by (auto simp: py_getitem_def split: if_splits)
  let ?b = "nk\<lparr>header := header k0\<rparr>"
  from Kit_init_default_voices [OF nk]
  have nk4: "length (voices nk) = 4" and nk30: "length (data (voices nk ! 3)) = 30" by simp_all
  have b4: "length (voices ?b) = 4" using nk4 by simp
  from loop have loop0: "mix_loop kits [(0, c0, x0), (1, c1, x1), (2, c2, x2), (3, c3, x3)] ?b = Inr k"
    by (simp add: sels py_enumerate_four)
  from loop0 obtain sk0 s0 where g0: "py_getitem kits c0 = Inr sk0" "get_voice sk0 x0 = Inr s0"
    and ok0: "fst (set_voice 0 s0 ?b) = None"
    and loop1: "mix_loop kits [(1, c1, x1), (2, c2, x2), (3, c3, x3)] (snd (set_voice 0 s0 ?b)) = Inr k"
    by (rule mix_loop_step)
  let ?k1 = "snd (set_voice 0 s0 ?b)"
  from set_voice_frame [OF ok0 b4]
  have f1: "header ?k1 = header k0" "length (voices ?k1) = 4"
    "voices ?k1 ! 1 = voices ?b ! 1" "voices ?k1 ! 2 = voices ?b ! 2" "voices ?k1 ! 3 = voices nk ! 3"
    by simp_all
  from loop1 obtain sk1 s1 where g1: "py_getitem kits c1 = Inr sk1" "get_voice sk1 x1 = Inr s1"
    and ok1: "fst (set_voice 1 s1 ?k1) = None"
    and loop2: "mix_loop kits [(2, c2, x2), (3, c3, x3)] (snd (set_voice 1 s1 ?k1)) = Inr k"
    by (rule mix_loop_step)
  let ?k2 = "snd (set_voice 1 s1 ?k1)"
  from set_voice_frame [OF ok1 f1(2)] f1
  have f2: "header ?k2 = header k0" "length (voices ?k2) = 4"
    "voices ?k2 ! 0 = voices ?k1 ! 0" "voices ?k2 ! 3 = voices nk ! 3"
    by simp_all
  from loop2 obtain sk2 s2 where g2: "py_getitem kits c2 = Inr sk2" "get_voice sk2 x2 = Inr s2"
    and ok2: "fst (set_voice 2 s2 ?k2) = None"
    and loop3: "mix_loop kits [(3, c3, x3)] (snd (set_voice 2 s2 ?k2)) = Inr k"
    by (rule mix_loop_step)
  let ?k3 = "snd (set_voice 2 s2 ?k2)"
  from set_voice_frame [OF ok2 f2(2)] f2
  have f3: "header ?k3 = header k0" "length (voices ?k3) = 4"
    "voices ?k3 ! 0 = voices ?k1 ! 0" "voices ?k3 ! 1 = voices ?k2 ! 1"
    "voices ?k3 ! 3 = voices nk ! 3"
    by simp_all
  from loop3 obtain sk3 s3 where g3: "py_getitem kits c3 = Inr sk3" "get_voice sk3 x3 = Inr s3"
    and ok3: "fst (set_voice 3 s3 ?k3) = None"
    and loop4: "mix_loop kits [] (snd (set_voice 3 s3 ?k3)) = Inr k"
    by (rule mix_loop_step)
  from loop4 have k: "k = snd (set_voice 3 s3 ?k3)" by simp
  from set_voice_frame [OF ok3 f3(2)] f3
  have f4: "header k = header k0" "length (voices k) = 4"
    "voices k ! 0 = voices ?k1 ! 0" "voices k ! 1 = voices ?k2 ! 1"
    "voices k ! 2 = voices ?k3 ! 2"
    unfolding k by simp_all
  have r0: "fst (set_voice (int 0) s0 nk) = None
      \<and> get_voice k (int 0) = get_voice (snd (set_voice (int 0) s0 nk)) (int 0)"
    using mix_step_slot(1,3) [of 0 s0 ?b nk] ok0 b4 nk4 f4(2,3)
    by (simp add: get_voice_ok)
  have r1: "fst (set_voice (int 1) s1 nk) = None
      \<and> get_voice k (int 1) = get_voice (snd (set_voice (int 1) s1 nk)) (int 1)"
    using mix_step_slot(1,3) [of 1 s1 ?k1 nk] ok1 f1(2,5) nk4 f4(2,4)
    by (simp add: get_voice_ok)
  have r2: "fst (set_voice (int 2) s2 nk) = None
      \<and> get_voice k (int 2) = get_voice (snd (set_voice (int 2) s2 nk)) (int 2)"
    using mix_step_slot(1,3) [of 2 s2 ?k2 nk] ok2 f2(2,4) nk4 f4(2,5)
    by (simp add: get_voice_ok)
  have r3: "fst (set_voice (int 3) s3 nk) = None
      \<and> get_voice k (int 3) = get_voice (snd (set_voice (int 3) s3 nk)) (int 3)"
    using mix_step_slot(1,3) [of 3 s3 ?k3 nk] ok3 f3(2,5) nk4 f4(2)
    by (simp add: get_voice_ok k)
  have each: "\<exists>srckit src.
             py_getitem kits (fst (voice_selections ! t)) = Inr srckit
           \<and> get_voice srckit (snd (voice_selections ! t)) = Inr src
           \<and> fst (set_voice (int t) src nk) = None
           \<and> get_voice k (int t) = get_voice (snd (set_voice (int t) src nk)) (int t)"
    if "t < 4" for t
  proof -
    from that consider "t = 0" | "t = 1" | "t = 2" | "t = 3" by linarith
    then show ?thesis
    proof cases
      case 1
      with g0 r0 show ?thesis unfolding sels by auto
    next
      case 2
      with g1 r1 show ?thesis unfolding sels by auto
    next
      case 3
      with g2 r2 show ?thesis unfolding sels by auto
    next
      case 4
      with g3 r3 show ?thesis unfolding sels by auto
    qed
  qed
  from kits ne nk f4(1,2) k0' n each show ?thesis by blast
qed

theorem mix_kits_header_and_voices_witness:
  "mix_kits [example_file, example_file2] [(0, 0), (1, 3), (0, 3), (-1, 1)] = Inr mixed_example
   \<and> (\<exists>kits. load_kits [example_file, example_file2] = Inr kits
         \<and> header mixed_example = header (kits ! 0))
   \<and> length (voices mixed_example) = 4"
proof -
  have h: "mix_kits [example_file, example_file2] [(0, 0), (1, 3), (0, 3), (-1, 1)]
           = Inr mixed_example"
    unfolding mixed_example_def example_file_def example_file2_def standard_voice_def
      standard_bytes_def extended_bytes_def sampler_bytes_def
    by code_simp
  from mix_kits_header_and_voices [OF h] h show ?thesis by blast
qed

text \<open>
  The claim as written fails when the first selection names another kit than the first of
  the list: with two kit files of different headers and every selection taken from the
  second, the result carries the header of the first file, not that of the second, which
  is the kit the first selection names.
\<close>

theorem mix_kits_header_not_first_selection:
  "decode example_file = Inr example_kit
   \<and> decode example_file2 = Inr example_kit2
   \<and> mix_kits [example_file, example_file2] [(1, 0), (1, 1), (1, 2), (1, 3)]
       = Inr mixed_from_second
   \<and> header mixed_from_second = header example_kit
   \<and> header mixed_from_second \<noteq> header example_kit2"
proof -
  have a: "decode example_file = Inr example_kit"
    unfolding example_file_def example_kit_def standard_voice_def extended_voice_def
      standard_bytes_def extended_bytes_def
    by code_simp
  have b: "decode example_file2 = Inr example_kit2"
    unfolding example_file2_def example_kit2_def standard_voice_def sampler_voice_def
      standard_bytes_def sampler_bytes_def
    by code_simp
  have c: "mix_kits [example_file, example_file2] [(1, 0), (1, 1), (1, 2), (1, 3)]
       = Inr mixed_from_second"
    unfolding example_file_def example_file2_def mixed_from_second_def standard_voice_def
      sampler_voice_def standard_bytes_def extended_bytes_def sampler_bytes_def
    by code_simp
  have d: "header mixed_from_second = header example_kit"
    by (simp add: mixed_from_second_def example_kit_def)
  have e: "header mixed_from_second \<noteq> header example_kit2"
    by (simp add: mixed_from_second_def example_kit2_def)
  from a b c d e show ?thesis by simp
qed

section \<open>Sharing of Voice objects\<close>

lemma voice_refs_setitem_ok:
  assumes "0 \<le> index" "nat index < length (voice_refs k)"
  shows "voice_refs_setitem index r (s, k) = (None, (s, k\<lparr>voice_refs := (voice_refs k)[nat index := r]\<rparr>))"
  using assms by (simp add: voice_refs_setitem_def py_setitem_def)

lemma set_voice_obj_index:
  "fst (set_voice_obj index r st) = None \<Longrightarrow> 0 \<le> index \<and> index < 4"
  by (cases "0 \<le> index \<and> index < 4") (auto simp: set_voice_obj_def Let_def)

lemma set_voice_obj_shares:
  assumes "length (voice_refs k) = 4" "0 \<le> index" "index < 4"
    and "(index < 3 \<and> length (data (s ! r)) = 26)
         \<or> (index = 3 \<and> length (data (s ! r)) \<in> {30, 32})"
  shows "set_voice_obj index r (s, k) =
         (None, (s, k\<lparr>voice_refs := (voice_refs k)[nat index := r]\<rparr>))"
proof -
  from assms(1-3) have "nat index < length (voice_refs k)" by linarith
  with assms(2) have ok: "voice_refs_setitem index r (s, k) =
         (None, (s, k\<lparr>voice_refs := (voice_refs k)[nat index := r]\<rparr>))"
    by (rule voice_refs_setitem_ok)
  from assms(2-4) show ?thesis
    by (auto simp: set_voice_obj_def Let_def ok)
qed

lemma set_voice_obj_copies:
  assumes "length (voice_refs k) = 4" "0 \<le> index" "index < 4"
    and "(index < 3 \<and> length (data (s ! r)) \<in> {30, 32})
         \<or> (index = 3 \<and> length (data (s ! r)) = 26)"
  shows "\<exists>v'. set_voice_obj index r (s, k) =
         (None, (s @ [v'], k\<lparr>voice_refs := (voice_refs k)[nat index := length s]\<rparr>))"
proof -
  from assms(1-3) have "nat index < length (voice_refs k)" by linarith
  with assms(2) have ok: "voice_refs_setitem index r' (s', k) =
         (None, (s', k\<lparr>voice_refs := (voice_refs k)[nat index := r']\<rparr>))" for r' s'
    by (rule voice_refs_setitem_ok)
  from assms(2-4) show ?thesis
    by (auto simp: set_voice_obj_def Let_def ok new_voice_def Voice_init_def py_slice_prefix)
qed


lemma voice_step_at_same:
  "r < length s \<Longrightarrow> snd (voice_step_at oper r s) ! r = snd (voice_step oper (s ! r))"
  by (simp add: voice_step_at_def split: prod.splits)

lemma voice_step_at_other:
  "a \<noteq> r \<Longrightarrow> snd (voice_step_at oper r s) ! a = s ! a"
  by (simp add: voice_step_at_def split: prod.splits)

lemma kit_of_alloc:
  assumes "\<forall>x \<in> set (voice_refs k). x < length s"
  shows "map (\<lambda>r. (s @ [v]) ! r) (voice_refs k) = map (\<lambda>r. s ! r) (voice_refs k)"
  using assms by (simp add: nth_append)

text \<open>
  The store model and the value model of \<open>set_voice\<close> agree: read through the store, the
  Kit object after the call is what \<open>set_voice\<close> returns for the Kit value before the call.
\<close>

lemma set_voice_obj_refines:
  assumes refs: "\<forall>x \<in> set (voice_refs k). x < length s" and r: "r < length s"
    and res: "set_voice_obj index r (s, k) = (e, (s', k'))"
  shows "set_voice index (s ! r) (kit_of s k) = (e, kit_of s' k')"
proof -
  have upd: "kit_of s1 (k\<lparr>voice_refs := (voice_refs k)[n := a]\<rparr>)
      = (kit_of s k)\<lparr>voices := (voices (kit_of s k))[n := v]\<rparr>"
    if "map (\<lambda>r. s1 ! r) (voice_refs k) = map (\<lambda>r. s ! r) (voice_refs k)" "s1 ! a = v"
    for s1 n a v
  proof -
    have "map (\<lambda>r. s1 ! r) ((voice_refs k)[n := a])
        = (map (\<lambda>r. s1 ! r) (voice_refs k))[n := s1 ! a]"
      by (rule map_update)
    also have "\<dots> = (map (\<lambda>r. s ! r) (voice_refs k))[n := v]"
      by (simp only: that)
    finally show ?thesis by (simp add: kit_of_def)
  qed
  have set_r: "voice_refs_setitem index a (s1, k) =
      (case py_setitem (voice_refs k) index a of
         Inl e \<Rightarrow> (Some e, (s1, k))
       | Inr rs \<Rightarrow> (None, (s1, k\<lparr>voice_refs := rs\<rparr>)))" for a s1
    by (simp add: voice_refs_setitem_def split: sum.splits)
  have set_v: "voices_setitem index v (kit_of s k) =
      (case py_setitem (voice_refs k) index a of
         Inl e \<Rightarrow> (Some e, kit_of s k)
       | Inr rs \<Rightarrow> (None, kit_of s1 (k\<lparr>voice_refs := rs\<rparr>)))"
    if "map (\<lambda>r. s1 ! r) (voice_refs k) = map (\<lambda>r. s ! r) (voice_refs k)" "s1 ! a = v"
    for v a s1
    using upd [OF that]
    by (auto simp: voices_setitem_def py_setitem_def Let_def kit_of_def)
  have same: "set_voice index (s ! r) (kit_of s k) = (e, kit_of s' k')"
    if "set_voice_obj index r (s, k) = voice_refs_setitem index r (s, k)"
       "set_voice index (s ! r) (kit_of s k) = voices_setitem index (s ! r) (kit_of s k)"
    using that res set_v [of s r "s ! r"] set_r [of r s]
    by (auto split: sum.splits)
  have fresh: "set_voice index (s ! r) (kit_of s k) = (e, kit_of s' k')"
    if "set_voice_obj index r (s, k) = voice_refs_setitem index (length s) (s @ [v], k)"
       "set_voice index (s ! r) (kit_of s k) = voices_setitem index v (kit_of s k)"
    for v
  proof -
    have keep: "kit_of (s @ [v]) k = kit_of s k"
      using kit_of_alloc [OF refs, of v] by (simp add: kit_of_def)
    from that res set_v [OF kit_of_alloc [OF refs, of v], of "length s" v]
      set_r [of "length s" "s @ [v]"]
    show ?thesis by (auto simp: keep split: sum.splits)
  qed
  have refs3: "3 < length (voice_refs k) \<Longrightarrow> map (\<lambda>r. s ! r) (voice_refs k) ! 3 = s ! (voice_refs k ! 3)"
    by simp
  consider (range) "\<not> (0 \<le> index \<and> index < 4)"
    | (low26) "0 \<le> index" "index < 3" "length (data (s ! r)) = 26"
    | (lowcut) "0 \<le> index" "index < 3" "length (data (s ! r)) \<in> {30, 32}"
    | (lowbad) "0 \<le> index" "index < 3" "length (data (s ! r)) \<notin> {26, 30, 32}"
    | (up) "index = 3" "length (data (s ! r)) = 26"
    | (asis) "index = 3" "length (data (s ! r)) \<in> {30, 32}"
    | (bad) "index = 3" "length (data (s ! r)) \<notin> {26, 30, 32}"
    by (cases "length (data (s ! r)) \<in> {26, 30, 32}"; cases "length (data (s ! r)) = 26") force+
  then show ?thesis
  proof cases
    case range
    with res show ?thesis by (auto simp: set_voice_obj_def set_voice_def Let_def)
  next
    case low26
    then show ?thesis by (intro same) (auto simp: set_voice_obj_def set_voice_def Let_def)
  next
    case lowcut
    then show ?thesis
      by (intro fresh [of "\<lparr>data = take 26 (data (s ! r)), is_voice4 = False, has_sampler = False\<rparr>"])
         (auto simp: set_voice_obj_def set_voice_def Let_def new_voice_def Voice_init_def
           py_slice_prefix)
  next
    case lowbad
    with res show ?thesis by (auto simp: set_voice_obj_def set_voice_def Let_def)
  next
    case up
    show ?thesis
    proof (cases "3 < length (voice_refs k) \<and> length (data (s ! (voice_refs k ! 3))) = 32")
      case True
      with up show ?thesis
        by (intro fresh [of "\<lparr>data = data (s ! r) @ [1, 0, 1, 0, 0, 0], is_voice4 = True,
              has_sampler = True\<rparr>"])
           (auto simp: set_voice_obj_def set_voice_def Let_def new_voice_def Voice_init_def
             kit_of_def)
    next
      case False
      with up show ?thesis
        by (intro fresh [of "\<lparr>data = data (s ! r) @ [1, 0, 1, 0], is_voice4 = True,
              has_sampler = False\<rparr>"])
           (auto simp: set_voice_obj_def set_voice_def Let_def new_voice_def Voice_init_def
             kit_of_def)
    qed
  next
    case asis
    then show ?thesis by (intro same) (auto simp: set_voice_obj_def set_voice_def Let_def)
  next
    case bad
    with res show ?thesis by (auto simp: set_voice_obj_def set_voice_def Let_def)
  qed
qed


text \<open>
  When \<open>set_voice\<close> builds a new Voice object and when it stores the supplied one.  A
  conversion (a 30- or 32-byte voice put into slot 0, 1 or 2, or a 26-byte voice put into
  slot 3) goes through \<open>Voice(...)\<close>: the Kit then holds a new object, and setter calls on
  the supplied Voice and on the Kit's voice do not reach each other.  Without a conversion
  the Kit holds the supplied object itself, and a setter call on it is a setter call on
  the Kit's voice.
\<close>

lemma set_voice_obj_copies_or_shares:
  assumes "set_voice_obj index r (s, k) = (None, (s', k'))"
    and "length (voice_refs k) = 4" and "r < length s"
  shows "if (index < 3 \<and> length (data (s ! r)) = 26)
            \<or> (index = 3 \<and> length (data (s ! r)) \<in> {30, 32})
         then get_voice_obj k' index = Inr r \<and> s' = s
              \<and> (\<forall>oper. snd (voice_step_at oper r s') ! r = snd (voice_step oper (s ! r)))
         else get_voice_obj k' index = Inr (length s) \<and> length s' = Suc (length s)
              \<and> s' ! r = s ! r
              \<and> (\<forall>oper. snd (voice_step_at oper r s') ! length s = s' ! length s)
              \<and> (\<forall>oper. snd (voice_step_at oper (length s) s') ! r = s' ! r)"
proof -
  from assms(1) have i: "0 \<le> index" "index < 4"
    using set_voice_obj_index [of index r "(s, k)"] by simp_all
  then have n: "nat index < 4" by linarith
  have get: "get_voice_obj (k\<lparr>voice_refs := (voice_refs k)[nat index := a]\<rparr>) index = Inr a" for a
    using i n assms(2) by (simp add: get_voice_obj_def py_getitem_def)
  show ?thesis
  proof (cases "(index < 3 \<and> length (data (s ! r)) = 26)
            \<or> (index = 3 \<and> length (data (s ! r)) \<in> {30, 32})")
    case True
    from set_voice_obj_shares [OF assms(2) i True] assms(1)
    have "s' = s" "k' = k\<lparr>voice_refs := (voice_refs k)[nat index := r]\<rparr>" by simp_all
    with True get [of r] assms(3) show ?thesis by (simp add: voice_step_at_same)
  next
    case False
    have len: "length (data (s ! r)) \<in> {26, 30, 32}"
      using assms(1) i
      by (auto simp: set_voice_obj_def Let_def split: if_splits)
    with False i have conv: "(index < 3 \<and> length (data (s ! r)) \<in> {30, 32})
         \<or> (index = 3 \<and> length (data (s ! r)) = 26)"
      by auto
    from set_voice_obj_copies [OF assms(2) i conv] assms(1)
    obtain v' where s': "s' = s @ [v']"
      and k': "k' = k\<lparr>voice_refs := (voice_refs k)[nat index := length s]\<rparr>"
      by auto
    from assms(3) have ne: "length s \<noteq> r" "r \<noteq> length s" by simp_all
    from False get [of "length s"] assms(3) ne show ?thesis
      by (simp add: s' k' voice_step_at_other nth_append)
  qed
qed

text \<open>
  C3.  The code shares the Voice where the claim wants a copy.  A 26-byte Voice (the
  object at reference 4, TUNE 128) is put into slot 0 of a Kit: \<open>set_voice\<close> succeeds,
  creates no object and the Kit's slot 0 is reference 4 itself.  Setting TUNE to 99 on the
  supplied Voice afterwards changes the bytes of the Kit's voice at slot 0, which then reads
  TUNE 99.
\<close>

theorem set_voice_shares_the_voice:
  "set_voice_obj 0 4 (example_store, example_kit_obj)
     = (None, (example_store, example_kit_obj\<lparr>voice_refs := [4, 1, 2, 3]\<rparr>))
   \<and> get_voice_obj (example_kit_obj\<lparr>voice_refs := [4, 1, 2, 3]\<rparr>) 0 = Inr 4
   \<and> tune (example_store ! 4) = Inr 128
   \<and> fst (voice_step_at (Set_pot TUNE 99) 4 example_store) = None
   \<and> tune (snd (voice_step_at (Set_pot TUNE 99) 4 example_store) ! 4) = Inr 99
   \<and> data (snd (voice_step_at (Set_pot TUNE 99) 4 example_store) ! 4)
       \<noteq> data (example_store ! 4)"
  unfolding example_store_def example_kit_obj_def standard_voice_def extended_voice_def
    standard_bytes_def extended_bytes_def
  by code_simp

end
